theory Spec2Isabelle
  imports Complex_Main
begin

section \<open>JavaScript values used by the aggregation code\<close>

text \<open>
  The finance tracker keeps its aggregation logic inline in two generations of view
  components.  The current component (\<open>FinanceTrackerApp\<close>, second half of
  \<open>TransactionsList.jsx\<close>) stores a transaction as
  \<open>{ type, amount, category, note, date }\<close> with \<open>date\<close> an ISO string; the earlier
  components (\<open>TransactionsList\<close>, \<open>StatsView\<close>) read documents whose \<open>date\<close> is a Firestore
  timestamp.  Both read the same collection of a schemaless store, so a document may lack
  a field, which is an \<open>option\<close>, or hold a date of the other kind.

  An amount is a JavaScript number.  The model takes amounts to be whole numbers of VND, an
  \<open>int\<close>: a double holds every whole number of magnitude up to \<open>2^53\<close> and adds two of
  them exactly when the sum stays in that range.  The forms that add a transaction keep
  the digits of the input only, but the edit row of the earlier list view stores
  \<open>parseFloat\<close> of a number input, which can be a fraction or \<open>NaN\<close>; these, and sums
  beyond \<open>2^53\<close>, which a double rounds, are outside the model.
\<close>

record transaction =
  tx_type :: "string option"
  amount :: int
  category :: string
  tx_note :: "string option"
  tx_date :: "string option"

text \<open>
  The \<open>date\<close> field of a stored document as the earlier components meet it: a Firestore
  \<open>Timestamp\<close> (here the local day of its \<open>toDate()\<close>), the ISO string that the current
  component stores, or nothing.  Only a \<open>Timestamp\<close> has a method \<open>toDate\<close>; the call
  \<open>t.date.toDate()\<close> on anything else throws a \<open>TypeError\<close>.
\<close>

datatype stored_date = Timestamp int | DateString string | NoDate

datatype error = TypeError

record legacy_transaction =
  l_type :: "string option"
  l_amount :: int
  l_category :: string
  l_date :: stored_date

definition toDate :: "stored_date \<Rightarrow> error + int" where
  "toDate v =
     (case v of
        Timestamp d \<Rightarrow> Inr d
      | DateString s \<Rightarrow> Inl TypeError
      | NoDate \<Rightarrow> Inl TypeError)"

text \<open>
  \<open>Array.prototype.filter\<close> and \<open>forEach\<close> with a callback that may throw: the elements
  are visited in order and the first exception ends the call.
\<close>

fun filter_throwing :: "('a \<Rightarrow> error + bool) \<Rightarrow> 'a list \<Rightarrow> error + 'a list" where
  "filter_throwing p [] = Inr []"
| "filter_throwing p (x # xs) =
     (case p x of
        Inl e \<Rightarrow> Inl e
      | Inr b \<Rightarrow>
          (case filter_throwing p xs of
             Inl e \<Rightarrow> Inl e
           | Inr ys \<Rightarrow> Inr (if b then x # ys else ys)))"

fun forEach_throwing :: "('s \<Rightarrow> 'a \<Rightarrow> error + 's) \<Rightarrow> 's \<Rightarrow> 'a list \<Rightarrow> error + 's" where
  "forEach_throwing f s [] = Inr s"
| "forEach_throwing f s (x # xs) =
     (case f s x of Inl e \<Rightarrow> Inl e | Inr s' \<Rightarrow> forEach_throwing f s' xs)"

text \<open>
  \<open>x || d\<close> on a possibly missing string: \<open>undefined\<close>, \<open>null\<close> and the empty string are
  falsy.
\<close>

definition truthy :: "string option \<Rightarrow> bool" where
  "truthy v = (case v of None \<Rightarrow> False | Some s \<Rightarrow> s \<noteq> [])"

definition or_else :: "string option \<Rightarrow> string \<Rightarrow> string" where
  "or_else v d = (case v of None \<Rightarrow> d | Some s \<Rightarrow> if s = [] then d else s)"

text \<open>The relational operators on two strings compare code units lexicographically.\<close>

fun str_less :: "string \<Rightarrow> string \<Rightarrow> bool" where
  "str_less [] [] = False"
| "str_less [] (y # ys) = True"
| "str_less (x # xs) [] = False"
| "str_less (x # xs) (y # ys) =
     (if x = y then str_less xs ys else (of_char x :: nat) < of_char y)"

text \<open>\<open>a >= b\<close> and \<open>a <= b\<close> with \<open>a\<close> possibly \<open>undefined\<close> (then both are false).\<close>

definition js_ge :: "string option \<Rightarrow> string \<Rightarrow> bool" where
  "js_ge a b = (case a of None \<Rightarrow> False | Some s \<Rightarrow> \<not> str_less s b)"

definition js_le :: "string option \<Rightarrow> string \<Rightarrow> bool" where
  "js_le a b = (case a of None \<Rightarrow> False | Some s \<Rightarrow> \<not> str_less b s)"

text \<open>
  \<open>toLowerCase\<close> on the ASCII letters (other letters are left as they are, where the source
  maps all of Unicode; no result below depends on the text filter), and \<open>includes\<close> as a
  search for a contiguous run.
\<close>

definition lower_char :: "char \<Rightarrow> char" where
  "lower_char c =
     (let n = (of_char c :: nat) in if 65 \<le> n \<and> n \<le> 90 then char_of (n + 32) else c)"

definition toLowerCase :: "string \<Rightarrow> string" where
  "toLowerCase s = map lower_char s"

fun starts_with :: "string \<Rightarrow> string \<Rightarrow> bool" where
  "starts_with s [] = True"
| "starts_with [] (p # ps) = False"
| "starts_with (c # cs) (p # ps) = (c = p \<and> starts_with cs ps)"

fun str_includes :: "string \<Rightarrow> string \<Rightarrow> bool" where
  "str_includes [] p = (p = [])"
| "str_includes (c # cs) p = (starts_with (c # cs) p \<or> str_includes cs p)"

section \<open>The filtered view\<close>

record filters =
  typeFilter :: string
  categoryFilter :: string
  queryText :: string
  startDate :: string
  endDate :: string

definition inType :: "filters \<Rightarrow> transaction \<Rightarrow> bool" where
  "inType f t = (typeFilter f = ''all'' \<or> tx_type t = Some (typeFilter f))"

definition inCategory :: "filters \<Rightarrow> transaction \<Rightarrow> bool" where
  "inCategory f t = (categoryFilter f = ''all'' \<or> category t = categoryFilter f)"

definition inText :: "filters \<Rightarrow> transaction \<Rightarrow> bool" where
  "inText f t =
     (queryText f = [] \<or>
      str_includes (toLowerCase (or_else (tx_note t) [])) (toLowerCase (queryText f)))"

definition inDate :: "filters \<Rightarrow> transaction \<Rightarrow> bool" where
  "inDate f t =
     ((startDate f = [] \<or> js_ge (tx_date t) (startDate f)) \<and>
      (endDate f = [] \<or> js_le (tx_date t) (endDate f)))"

definition filtered :: "filters \<Rightarrow> transaction list \<Rightarrow> transaction list" where
  "filtered f transactions =
     filter (\<lambda>t. inType f t \<and> inCategory f t \<and> inText f t \<and> inDate f t) transactions"

text \<open>The type a reader of the data model expects: a missing type counts as an expense.\<close>

definition effective_type :: "transaction \<Rightarrow> string" where
  "effective_type t = or_else (tx_type t) ''expense''"

section \<open>Totals\<close>

record totals =
  income :: int
  expense :: int
  balance :: int

text \<open>
  \<open>sums\<close> of the current component: one pass over the filtered list, everything that is
  not an income is added to the expenses.
\<close>

definition sums_step :: "int \<times> int \<Rightarrow> transaction \<Rightarrow> int \<times> int" where
  "sums_step acc t =
     (if tx_type t = Some ''income'' then (fst acc + amount t, snd acc)
      else (fst acc, snd acc + amount t))"

definition sums_tx :: "transaction list \<Rightarrow> totals" where
  "sums_tx xs =
     (let acc = foldl sums_step (0, 0) xs
      in \<lparr>income = fst acc, expense = snd acc, balance = fst acc - snd acc\<rparr>)"

text \<open>
  \<open>totalIncome\<close>, \<open>totalExpense\<close> and \<open>totalBalance\<close> of the earlier list view (the
  statistics view computes the first two by the same expressions).
\<close>

definition totalIncome :: "legacy_transaction list \<Rightarrow> int" where
  "totalIncome transactions =
     foldl (\<lambda>a t. a + l_amount t) 0 (filter (\<lambda>t. l_type t = Some ''income'') transactions)"

definition totalExpense :: "legacy_transaction list \<Rightarrow> int" where
  "totalExpense transactions =
     foldl (\<lambda>a t. a + l_amount t) 0
       (filter (\<lambda>t. or_else (l_type t) ''expense'' = ''expense'') transactions)"

definition totalBalance :: "legacy_transaction list \<Rightarrow> int" where
  "totalBalance transactions = totalIncome transactions - totalExpense transactions"

definition totalsByType :: "legacy_transaction list \<Rightarrow> totals" where
  "totalsByType transactions =
     \<lparr>income = totalIncome transactions, expense = totalExpense transactions,
      balance = totalBalance transactions\<rparr>"

text \<open>Reading a current record the way the earlier views read theirs.\<close>

definition as_legacy :: "transaction \<Rightarrow> legacy_transaction" where
  "as_legacy t =
     \<lparr>l_type = tx_type t, l_amount = amount t, l_category = category t,
      l_date = (case tx_date t of None \<Rightarrow> NoDate | Some s \<Rightarrow> DateString s)\<rparr>"

text \<open>
  The range in which the sums of a list of whole amounts are exact in doubles: every
  partial sum, of any part of the list in any order, and every difference of two such sums
  has magnitude at most \<open>2^53\<close>.
\<close>

definition exact_range :: "int list \<Rightarrow> bool" where
  "exact_range amounts = ((\<Sum>a\<leftarrow>amounts. abs a) \<le> 2 ^ 53)"

section \<open>Budget figures\<close>










section \<open>Calendar dates\<close>

text \<open>
  A \<open>Date\<close> is modelled by the number of its local calendar day, counted from 1 January
  1970: the code under study only reads the year, the month and the day of the month of a
  date and moves a date by whole days, so the time of day and the zone offset play no part.
  The functions are the day-level definitions of ECMA-262: \<open>DaysInYear\<close>,
  \<open>DayFromYear\<close>, \<open>YearFromTime\<close>, \<open>InLeapYear\<close>, \<open>MonthFromTime\<close>, \<open>DateFromTime\<close> and
  \<open>MakeDay\<close>.
\<close>

definition DaysInYear :: "int \<Rightarrow> int" where
  "DaysInYear y =
     (if y mod 4 \<noteq> 0 then 365 else if y mod 100 \<noteq> 0 then 366
      else if y mod 400 \<noteq> 0 then 365 else 366)"

definition DayFromYear :: "int \<Rightarrow> int" where
  "DayFromYear y =
     365 * (y - 1970) + (y - 1969) div 4 - (y - 1901) div 100 + (y - 1601) div 400"

text \<open>
  \<open>YearFromTime(t)\<close> is the largest year \<open>y\<close> with \<open>DayFromYear(y) \<le> t\<close>.  It is found by
  a search upward from a year that is not too late; the search ends because every year has
  at least 365 days.
\<close>

lemma div_pred:
  assumes "0 < (n::int)"
  shows "a div n = (a - 1) div n + (if a mod n = 0 then 1 else 0)"
proof (cases "a mod n = 0")
  case True
  have e: "n * (a div n - 1) = n * (a div n) - n" by (simp add: right_diff_distrib)
  have "a - 1 = n * (a div n - 1) + (n - 1)"
    using mult_div_mod_eq [of n a] True e by linarith
  then have "(a - 1) div n = a div n - 1"
    using assms by (intro int_div_pos_eq [where r = "n - 1"]) auto
  with True show ?thesis by simp
next
  case False
  have "0 \<le> a mod n" "a mod n < n" using assms by simp_all
  with False have r: "0 \<le> a mod n - 1" "a mod n - 1 < n" by linarith+
  have "a - 1 = n * (a div n) + (a mod n - 1)" by simp
  then have "(a - 1) div n = a div n"
    using r by (intro int_div_pos_eq [where r = "a mod n - 1"]) auto
  with False show ?thesis by simp
qed

lemma mod_shift: "(a - k * n) mod n = a mod (n::int)"
  using mod_mult_self1 [of a "- k" n] by simp

lemma year_mods:
  "(y - 1968) mod 4 = y mod (4::int)"
  "(y - 1900) mod 100 = y mod (100::int)"
  "(y - 1600) mod 400 = y mod (400::int)"
  using mod_shift [of y 492 4] mod_shift [of y 19 100] mod_shift [of y 4 400] by simp_all

lemma leap_mods:
  "y mod 100 = 0 \<Longrightarrow> y mod 4 = (0::int)"
  "y mod 400 = 0 \<Longrightarrow> y mod 100 = (0::int)"
  using mod_mod_cancel [of 4 100 y] mod_mod_cancel [of 100 400 y] by simp_all

lemma DayFromYear_Suc: "DayFromYear (y + 1) = DayFromYear y + DaysInYear y"
proof -
  have a: "(y - 1968) div 4 = (y - 1969) div 4 + (if y mod 4 = 0 then 1 else 0)"
    using div_pred [of 4 "y - 1968"] by (simp add: year_mods)
  have b: "(y - 1900) div 100 = (y - 1901) div 100 + (if y mod 100 = 0 then 1 else 0)"
    using div_pred [of 100 "y - 1900"] by (simp add: year_mods)
  have c: "(y - 1600) div 400 = (y - 1601) div 400 + (if y mod 400 = 0 then 1 else 0)"
    using div_pred [of 400 "y - 1600"] by (simp add: year_mods)
  show ?thesis
    unfolding DayFromYear_def DaysInYear_def
    using leap_mods [of y] by (simp add: a b c)
qed

lemma DaysInYear_cases: "DaysInYear y = 365 \<or> DaysInYear y = 366"
  by (simp add: DaysInYear_def)

lemma DaysInYear_bounds: "365 \<le> DaysInYear y" "DaysInYear y \<le> 366"
  by (simp_all add: DaysInYear_def)

lemma DayFromYear_less: "DayFromYear y < DayFromYear (y + 1)"
  using DaysInYear_cases [of y] by (auto simp: DayFromYear_Suc)

function year_search :: "int \<Rightarrow> int \<Rightarrow> int" where
  "year_search y d = (if DayFromYear (y + 1) \<le> d then year_search (y + 1) d else y)"
  by pat_completeness auto

termination
proof (relation "measure (\<lambda>(y, d). nat (d - DayFromYear y))")
  show "wf (measure (\<lambda>(y, d). nat (d - DayFromYear y)))" by simp
next
  fix y d :: int
  assume "DayFromYear (y + 1) \<le> d"
  then show "((y + 1, d), (y, d)) \<in> measure (\<lambda>(y, d). nat (d - DayFromYear y))"
    using DayFromYear_less [of y] by simp
qed

declare year_search.simps [simp del]

definition YearFromTime :: "int \<Rightarrow> int" where
  "YearFromTime d = year_search (1970 + (if 0 \<le> d then d div 366 else d div 365)) d"

definition leap_day :: "int \<Rightarrow> int" where
  "leap_day y = (if DaysInYear y = 366 then 1 else 0)"

definition InLeapYear :: "int \<Rightarrow> int" where
  "InLeapYear t = leap_day (YearFromTime t)"

definition DayWithinYear :: "int \<Rightarrow> int" where
  "DayWithinYear t = t - DayFromYear (YearFromTime t)"

definition MonthFromTime :: "int \<Rightarrow> int" where
  "MonthFromTime t =
     (let d = DayWithinYear t; l = InLeapYear t in
      if d < 31 then 0 else if d < 59 + l then 1 else if d < 90 + l then 2
      else if d < 120 + l then 3 else if d < 151 + l then 4 else if d < 181 + l then 5
      else if d < 212 + l then 6 else if d < 243 + l then 7 else if d < 273 + l then 8
      else if d < 304 + l then 9 else if d < 334 + l then 10 else 11)"

definition DateFromTime :: "int \<Rightarrow> int" where
  "DateFromTime t =
     (let d = DayWithinYear t; l = InLeapYear t; m = MonthFromTime t in
      if m = 0 then d + 1 else if m = 1 then d - 30 else if m = 2 then d - 58 - l
      else if m = 3 then d - 89 - l else if m = 4 then d - 119 - l
      else if m = 5 then d - 150 - l else if m = 6 then d - 180 - l
      else if m = 7 then d - 211 - l else if m = 8 then d - 242 - l
      else if m = 9 then d - 272 - l else if m = 10 then d - 303 - l else d - 333 - l)"

text \<open>
  \<open>MakeDay(year, month, date)\<close>: the month may lie outside \<open>0..11\<close> and the date outside
  the month; the result is the day reached by counting \<open>date - 1\<close> days from the first of
  the normalised month.
\<close>

definition month_start :: "int \<Rightarrow> int \<Rightarrow> int" where
  "month_start m l =
     (if m = 0 then 0 else if m = 1 then 31 else if m = 2 then 59 + l
      else if m = 3 then 90 + l else if m = 4 then 120 + l else if m = 5 then 151 + l
      else if m = 6 then 181 + l else if m = 7 then 212 + l else if m = 8 then 243 + l
      else if m = 9 then 273 + l else if m = 10 then 304 + l else 334 + l)"

definition MakeDay :: "int \<Rightarrow> int \<Rightarrow> int \<Rightarrow> int" where
  "MakeDay year month dt =
     (let ym = year + month div 12; mn = month mod 12
      in DayFromYear ym + month_start mn (leap_day ym) + dt - 1)"

text \<open>The methods of \<open>Date\<close> that the components call, on local day numbers.\<close>

definition getFullYear :: "int \<Rightarrow> int" where "getFullYear t = YearFromTime t"

definition getMonth :: "int \<Rightarrow> int" where "getMonth t = MonthFromTime t"

definition getDate :: "int \<Rightarrow> int" where "getDate t = DateFromTime t"

definition setDate :: "int \<Rightarrow> int \<Rightarrow> int" where
  "setDate t dt = MakeDay (YearFromTime t) (MonthFromTime t) dt"

text \<open>
  The length of a month as the calendar gives it (month index \<open>0..11\<close>), with the
  Gregorian leap-year rule: the reference for the day count of the daily series.
\<close>

definition month_length :: "int \<Rightarrow> int \<Rightarrow> int" where
  "month_length y m =
     (if m = 1 then (if y mod 4 = 0 \<and> (y mod 100 \<noteq> 0 \<or> y mod 400 = 0) then 29 else 28)
      else if m = 3 \<or> m = 5 \<or> m = 8 \<or> m = 10 then 30 else 31)"

section \<open>ISO labels and the rolling window\<close>

text \<open>
  \<open>String(n)\<close> of an integer and \<open>padStart(2, '0')\<close>, as \<open>toISO\<close> uses them; \<open>daysAgo\<close> reads
  the clock, which is the parameter \<open>now\<close>.
\<close>

fun digits :: "nat \<Rightarrow> string" where
  "digits n = (if n < 10 then [''0123456789'' ! n]
               else digits (n div 10) @ [''0123456789'' ! (n mod 10)])"

declare digits.simps [simp del]

definition String_of :: "int \<Rightarrow> string" where
  "String_of n = (if n < 0 then CHR ''-'' # digits (nat (- n)) else digits (nat n))"

definition pad :: "int \<Rightarrow> string" where
  "pad n = (let s = String_of n in replicate (2 - length s) CHR ''0'' @ s)"

definition toISO :: "int \<Rightarrow> string" where
  "toISO d = String_of (getFullYear d) @ ''-'' @ pad (getMonth d + 1) @ ''-'' @ pad (getDate d)"

definition daysAgo :: "int \<Rightarrow> int \<Rightarrow> string" where
  "daysAgo now n = toISO (setDate now (getDate now - n))"

text \<open>
  \<open>chartDaily\<close>: thirty buckets keyed by their labels, filled in one pass over the filtered
  list.  \<open>map[t.date]\<close> finds a bucket only under a key equal to the date string; the
  result reads the buckets back in the order of the labels.
\<close>

record daily =
  d_date :: string
  d_income :: int
  d_expense :: int
  d_net :: int

definition window_dates :: "int \<Rightarrow> string list" where
  "window_dates now = map (\<lambda>i. daysAgo now (int i)) (rev [0..<30])"

definition empty_buckets :: "string list \<Rightarrow> (string \<rightharpoonup> daily)" where
  "empty_buckets dates =
     fold (\<lambda>d m. m(d \<mapsto> \<lparr>d_date = d, d_income = 0, d_expense = 0, d_net = 0\<rparr>)) dates Map.empty"

definition add_to_bucket :: "daily \<Rightarrow> transaction \<Rightarrow> daily" where
  "add_to_bucket b t =
     (let b1 = (if tx_type t = Some ''income''
                then b\<lparr>d_income := d_income b + amount t\<rparr>
                else b\<lparr>d_expense := d_expense b + amount t\<rparr>)
      in b1\<lparr>d_net := d_income b1 - d_expense b1\<rparr>)"

definition bucket_step :: "(string \<rightharpoonup> daily) \<Rightarrow> transaction \<Rightarrow> (string \<rightharpoonup> daily)" where
  "bucket_step m t =
     (case tx_date t of
        None \<Rightarrow> m
      | Some s \<Rightarrow>
          (case m s of
             None \<Rightarrow> m
           | Some b \<Rightarrow> m(s \<mapsto> add_to_bucket b t)))"

definition chartDaily :: "int \<Rightarrow> transaction list \<Rightarrow> daily option list" where
  "chartDaily now xs =
     (let dates = window_dates now;
          m = foldl bucket_step (empty_buckets dates) xs
      in map m dates)"


text \<open>The amounts that belong to one label, for stating what a bucket holds.\<close>

definition income_on :: "transaction list \<Rightarrow> string \<Rightarrow> int" where
  "income_on xs d =
     (\<Sum>t\<leftarrow>xs. if tx_date t = Some d \<and> tx_type t = Some ''income'' then amount t else 0)"

definition expense_on :: "transaction list \<Rightarrow> string \<Rightarrow> int" where
  "expense_on xs d =
     (\<Sum>t\<leftarrow>xs. if tx_date t = Some d \<and> tx_type t \<noteq> Some ''income'' then amount t else 0)"

definition bump :: "string \<Rightarrow> daily \<Rightarrow> transaction \<Rightarrow> daily" where
  "bump d b t = (if tx_date t = Some d then add_to_bucket b t else b)"

section \<open>Expenses by category\<close>

text \<open>
  \<open>agg\<close> is an object literal used as a dictionary.  Its own properties are kept as an
  association list in the order in which \<open>Object.values\<close> enumerates them: keys that are
  array indices (canonical decimal numerals below \<open>2^32 - 1\<close>) first, in ascending numeric
  order, then the other keys in the order of their creation.  A read \<open>agg[k]\<close> that finds
  no own property continues in \<open>Object.prototype\<close>, whose members are all truthy, so
  \<open>agg[k] ||= {...}\<close> creates no property under such a name.
\<close>

record category_total =
  c_category :: string
  c_expense :: int

definition inherited_keys :: "string list" where
  "inherited_keys =
     [''constructor'', ''__defineGetter__'', ''__defineSetter__'', ''hasOwnProperty'',
      ''__lookupGetter__'', ''__lookupSetter__'', ''isPrototypeOf'', ''propertyIsEnumerable'',
      ''toString'', ''valueOf'', ''__proto__'', ''toLocaleString'']"

definition digit_value :: "char \<Rightarrow> nat" where
  "digit_value c = of_char c - 48"

definition index_of :: "string \<Rightarrow> nat" where
  "index_of s = foldl (\<lambda>a c. 10 * a + digit_value c) 0 s"

definition is_array_index :: "string \<Rightarrow> bool" where
  "is_array_index s =
     (s \<noteq> [] \<and> list_all (\<lambda>c. c \<in> set ''0123456789'') s \<and> digits (index_of s) = s \<and>
      index_of s \<le> 4294967294)"

fun put_index :: "string \<Rightarrow> 'v \<Rightarrow> (string \<times> 'v) list \<Rightarrow> (string \<times> 'v) list" where
  "put_index k v [] = [(k, v)]"
| "put_index k v ((k', v') # ps) =
     (if is_array_index k' \<and> index_of k' < index_of k then (k', v') # put_index k v ps
      else (k, v) # (k', v') # ps)"

definition define_own :: "string \<Rightarrow> 'v \<Rightarrow> (string \<times> 'v) list \<Rightarrow> (string \<times> 'v) list" where
  "define_own k v ps = (if is_array_index k then put_index k v ps else ps @ [(k, v)])"

definition set_own :: "string \<Rightarrow> 'v \<Rightarrow> (string \<times> 'v) list \<Rightarrow> (string \<times> 'v) list" where
  "set_own k v ps = map (\<lambda>p. if fst p = k then (k, v) else p) ps"

definition agg_step ::
  "(string \<times> category_total) list \<Rightarrow> transaction \<Rightarrow> (string \<times> category_total) list" where
  "agg_step agg t =
     (if tx_type t \<noteq> Some ''expense'' then agg
      else
        (case map_of agg (category t) of
           Some slot \<Rightarrow> set_own (category t) (slot\<lparr>c_expense := c_expense slot + amount t\<rparr>) agg
         | None \<Rightarrow>
             if category t \<in> set inherited_keys then agg
             else define_own (category t)
                    \<lparr>c_category = category t, c_expense = 0 + amount t\<rparr> agg))"

definition Object_values :: "(string \<times> 'v) list \<Rightarrow> 'v list" where
  "Object_values ps = map snd ps"

text \<open>
  \<open>Array.prototype.sort\<close> is stable and the comparator \<open>b.expense - a.expense\<close> orders by
  descending expense, which is the stable insertion sort on the negated expense.
\<close>

definition byCategory :: "transaction list \<Rightarrow> category_total list" where
  "byCategory xs =
     take 10 (sort_key (\<lambda>e. - c_expense e) (Object_values (foldl agg_step [] xs)))"





text \<open>An expense record with a category and an amount, for the examples.\<close>

definition expense_tx :: "string \<Rightarrow> int \<Rightarrow> transaction" where
  "expense_tx c a = \<lparr>tx_type = Some ''expense'', amount = a, category = c, tx_note = None, tx_date = None\<rparr>"

section \<open>This month's expenses\<close>

text \<open>
  \<open>monthlyExpenses\<close> of the current component folds over the unfiltered \<open>transactions\<close>.
  \<open>new Date(t.date)\<close> is the engine's parser, taken as the parameter \<open>Date_parse\<close>: the local
  day of the parsed date, or \<open>None\<close> for an invalid date (\<open>getTime()\<close> is \<open>NaN\<close>).
  \<open>Number(t.amount || 0)\<close> is the amount itself.
\<close>

definition monthly_step ::
  "(string \<Rightarrow> int option) \<Rightarrow> int \<Rightarrow> int \<Rightarrow> int \<Rightarrow> transaction \<Rightarrow> int" where
  "monthly_step Date_parse year month tot t =
     (if tx_type t \<noteq> Some ''expense'' \<or> \<not> truthy (tx_date t) then tot
      else
        (case Date_parse (or_else (tx_date t) []) of
           None \<Rightarrow> tot
         | Some d \<Rightarrow>
             if getFullYear d = year \<and> getMonth d = month
             then tot + (if amount t = 0 then 0 else amount t)
             else tot))"

definition monthlyExpenses :: "(string \<Rightarrow> int option) \<Rightarrow> int \<Rightarrow> transaction list \<Rightarrow> int" where
  "monthlyExpenses Date_parse now transactions =
     foldl (monthly_step Date_parse (getFullYear now) (getMonth now)) 0 transactions"

text \<open>
  \<open>monthExpense\<close> of the earlier list view; \<open>isSameMonth\<close> of the date library compares
  the year and the month.  The callback of the filter calls \<open>t.date.toDate()\<close> on every
  record whose effective type is \<open>expense\<close> (\<open>&&\<close> skips the call for the others).
\<close>

definition isSameMonth :: "int \<Rightarrow> int \<Rightarrow> bool" where
  "isSameMonth a b = (getFullYear a = getFullYear b \<and> getMonth a = getMonth b)"

definition monthExpense :: "int \<Rightarrow> legacy_transaction list \<Rightarrow> error + int" where
  "monthExpense now transactions =
     (case filter_throwing
             (\<lambda>t. if or_else (l_type t) ''expense'' = ''expense''
                  then (case toDate (l_date t) of
                          Inl e \<Rightarrow> Inl e
                        | Inr d \<Rightarrow> Inr (isSameMonth d now))
                  else Inr False)
             transactions of
        Inl e \<Rightarrow> Inl e
      | Inr xs \<Rightarrow> Inr (foldl (\<lambda>a t. a + l_amount t) 0 xs))"

text \<open>A record whose date parses to a day of the month of \<open>now\<close>.\<close>

definition in_month :: "(string \<Rightarrow> int option) \<Rightarrow> int \<Rightarrow> transaction \<Rightarrow> bool" where
  "in_month Date_parse now t =
     (case tx_date t of
        None \<Rightarrow> False
      | Some s \<Rightarrow>
          (case Date_parse s of
             None \<Rightarrow> False
           | Some d \<Rightarrow> s \<noteq> [] \<and> getFullYear d = getFullYear now \<and> getMonth d = getMonth now))"

section \<open>The daily series of the month\<close>

text \<open>
  The line chart of the earlier list view, with the year and the month index (January is
  0) that the component reads from the clock as parameters.  \<open>new Date(y, m, d)\<close> takes a
  year \<open>0..99\<close> as \<open>1900 + y\<close> (\<open>MakeFullYear\<close> of ECMA-262) before \<open>MakeDay\<close>.
  \<open>format(date, 'yyyy-MM-dd')\<close> belongs to the date library and is the parameter \<open>format\<close>,
  from local days to labels.  \<open>byDate\<close> only ever holds numbers under such labels; \<open>x || 0\<close>
  reads a missing entry as 0.  The callback that selects the records of the month calls
  \<open>t.date.toDate()\<close> on every record of \<open>expenseTx\<close>, and so does the loop that fills
  \<open>byDate\<close> on every record selected.
\<close>

definition MakeFullYear :: "int \<Rightarrow> int" where
  "MakeFullYear y = (if 0 \<le> y \<and> y \<le> 99 then 1900 + y else y)"

definition new_Date :: "int \<Rightarrow> int \<Rightarrow> int \<Rightarrow> int" where
  "new_Date y m dt = MakeDay (MakeFullYear y) m dt"

definition or_zero :: "int option \<Rightarrow> int" where
  "or_zero v = (case v of None \<Rightarrow> 0 | Some n \<Rightarrow> if n = 0 then 0 else n)"

definition expenseTx :: "legacy_transaction list \<Rightarrow> legacy_transaction list" where
  "expenseTx transactions =
     filter (\<lambda>t. or_else (l_type t) ''expense'' = ''expense'') transactions"

definition monthExpenseTx ::
  "int \<Rightarrow> int \<Rightarrow> legacy_transaction list \<Rightarrow> error + legacy_transaction list" where
  "monthExpenseTx currentYear currentMonth transactions =
     filter_throwing
       (\<lambda>t. case toDate (l_date t) of
               Inl e \<Rightarrow> Inl e
             | Inr d \<Rightarrow> Inr (getMonth d = currentMonth \<and> getFullYear d = currentYear))
       (expenseTx transactions)"

definition byDate ::
  "(int \<Rightarrow> string) \<Rightarrow> legacy_transaction list \<Rightarrow> error + (string \<rightharpoonup> int)" where
  "byDate format xs =
     forEach_throwing
       (\<lambda>m tx. case toDate (l_date tx) of
                  Inl e \<Rightarrow> Inl e
                | Inr d \<Rightarrow> Inr (m(format d \<mapsto> or_zero (m (format d)) + l_amount tx)))
       Map.empty xs"

definition daysInMonth :: "int \<Rightarrow> int \<Rightarrow> int" where
  "daysInMonth currentYear currentMonth = getDate (new_Date currentYear (currentMonth + 1) 0)"

definition dateLabels :: "(int \<Rightarrow> string) \<Rightarrow> int \<Rightarrow> int \<Rightarrow> string list" where
  "dateLabels format currentYear currentMonth =
     map (\<lambda>i. format (new_Date currentYear currentMonth (int i + 1)))
       [0..<nat (daysInMonth currentYear currentMonth)]"

definition dailySeriesForMonth ::
  "(int \<Rightarrow> string) \<Rightarrow> legacy_transaction list \<Rightarrow> int \<Rightarrow> int \<Rightarrow> error + (string \<times> int) list" where
  "dailySeriesForMonth format transactions currentYear currentMonth =
     (case monthExpenseTx currentYear currentMonth transactions of
        Inl e \<Rightarrow> Inl e
      | Inr xs \<Rightarrow>
          (case byDate format xs of
             Inl e \<Rightarrow> Inl e
           | Inr bd \<Rightarrow>
               (let labels = dateLabels format currentYear currentMonth
                in Inr (zip labels (map (\<lambda>date. or_zero (bd date)) labels)))))"

definition lineData ::
  "(int \<Rightarrow> string) \<Rightarrow> int \<Rightarrow> legacy_transaction list \<Rightarrow> error + (string \<times> int) list" where
  "lineData format now transactions =
     dailySeriesForMonth format transactions (getFullYear now) (getMonth now)"

text \<open>
  What the series is expected to hold, said without the code's own selections: a record
  counts as an expense when its type is \<open>expense\<close> or missing, it belongs to a day when its
  date is a timestamp of that day, and the total of a day of a month adds the amounts of
  the expenses of that day.  \<open>label_total\<close> is the same total taken over the expenses of the
  month whose date is printed as a given label; when \<open>format\<close> prints different days
  differently, as \<open>yyyy-MM-dd\<close> does, the two agree.
\<close>

definition legacy_effective_type :: "legacy_transaction \<Rightarrow> string" where
  "legacy_effective_type t = or_else (l_type t) ''expense''"

definition dated_on :: "legacy_transaction \<Rightarrow> int \<Rightarrow> int \<Rightarrow> int \<Rightarrow> bool" where
  "dated_on t y m k =
     (case l_date t of
        Timestamp d \<Rightarrow> getFullYear d = y \<and> getMonth d = m \<and> getDate d = k
      | DateString s \<Rightarrow> False
      | NoDate \<Rightarrow> False)"

definition day_total :: "legacy_transaction list \<Rightarrow> int \<Rightarrow> int \<Rightarrow> int \<Rightarrow> int" where
  "day_total ts y m k =
     (\<Sum>t\<leftarrow>ts. if legacy_effective_type t = ''expense'' \<and> dated_on t y m k then l_amount t else 0)"

definition labelled :: "(int \<Rightarrow> string) \<Rightarrow> legacy_transaction \<Rightarrow> int \<Rightarrow> int \<Rightarrow> string \<Rightarrow> bool" where
  "labelled format t y m l =
     (case l_date t of
        Timestamp d \<Rightarrow> getFullYear d = y \<and> getMonth d = m \<and> format d = l
      | DateString s \<Rightarrow> False
      | NoDate \<Rightarrow> False)"

definition label_total ::
  "(int \<Rightarrow> string) \<Rightarrow> legacy_transaction list \<Rightarrow> int \<Rightarrow> int \<Rightarrow> string \<Rightarrow> int" where
  "label_total format ts y m l =
     (\<Sum>t\<leftarrow>ts. if legacy_effective_type t = ''expense'' \<and> labelled format t y m l
            then l_amount t else 0)"

text \<open>The lists on which no call of \<open>toDate\<close> fails: every expense carries a timestamp.\<close>

definition is_Timestamp :: "stored_date \<Rightarrow> bool" where
  "is_Timestamp v = (case v of Timestamp d \<Rightarrow> True | DateString s \<Rightarrow> False | NoDate \<Rightarrow> False)"

definition timestamped_expenses :: "legacy_transaction list \<Rightarrow> bool" where
  "timestamped_expenses ts =
     list_all (\<lambda>t. legacy_effective_type t \<noteq> ''expense'' \<or> is_Timestamp (l_date t)) ts"

section \<open>Objects in a store\<close>

text \<open>
  For the effect of a call on the objects that a caller shares with it, the arrays and
  the records live in a store: a list of cells, an object being the cell at its address.
  A call receives the address of the transactions array, whose elements are addresses of
  records; a new object takes the next free address.  The dictionaries \<open>map\<close> and \<open>agg\<close>
  and the array \<open>dates\<close> are created inside a call and never leave it, so they are values
  of the call; the buckets and slots they hold, and the array returned, are cells.  A
  read of a cell of the wrong kind is the \<open>TypeError\<close> of the source and ends the call
  with \<open>None\<close>; a call that throws on the date of a record has written nothing by then and
  returns the store with the error as its value.
\<close>

datatype cell =
    Arr "nat list"
  | Tx transaction
  | LegacyTx legacy_transaction
  | Bucket daily
  | Slot category_total

type_synonym store = "cell list"

definition load_arr :: "store \<Rightarrow> nat \<Rightarrow> nat list option" where
  "load_arr h a = (if a < length h then (case h ! a of Arr rs \<Rightarrow> Some rs | _ \<Rightarrow> None) else None)"

definition load_tx :: "store \<Rightarrow> nat \<Rightarrow> transaction option" where
  "load_tx h a = (if a < length h then (case h ! a of Tx t \<Rightarrow> Some t | _ \<Rightarrow> None) else None)"

definition load_legacy :: "store \<Rightarrow> nat \<Rightarrow> legacy_transaction option" where
  "load_legacy h a =
     (if a < length h then (case h ! a of LegacyTx t \<Rightarrow> Some t | _ \<Rightarrow> None) else None)"

definition load_bucket :: "store \<Rightarrow> nat \<Rightarrow> daily option" where
  "load_bucket h a =
     (if a < length h then (case h ! a of Bucket b \<Rightarrow> Some b | _ \<Rightarrow> None) else None)"

definition load_slot :: "store \<Rightarrow> nat \<Rightarrow> category_total option" where
  "load_slot h a = (if a < length h then (case h ! a of Slot s \<Rightarrow> Some s | _ \<Rightarrow> None) else None)"

fun fold_opt :: "('s \<Rightarrow> 'a \<Rightarrow> 's option) \<Rightarrow> 's \<Rightarrow> 'a list \<Rightarrow> 's option" where
  "fold_opt f s [] = Some s"
| "fold_opt f s (x # xs) = (case f s x of None \<Rightarrow> None | Some s' \<Rightarrow> fold_opt f s' xs)"

definition read_transactions :: "store \<Rightarrow> nat \<Rightarrow> (nat \<times> transaction) list option" where
  "read_transactions h arr =
     (case load_arr h arr of
        None \<Rightarrow> None
      | Some refs \<Rightarrow> map_option (zip refs) (those (map (load_tx h) refs)))"

definition read_legacy :: "store \<Rightarrow> nat \<Rightarrow> legacy_transaction list option" where
  "read_legacy h arr =
     (case load_arr h arr of
        None \<Rightarrow> None
      | Some refs \<Rightarrow> those (map (load_legacy h) refs))"

text \<open>
  The operations that only read: \<open>filter\<close> builds a new array of the references it
  keeps, the totals and the series of the month are computed from the records read.
\<close>

definition filtered_in :: "filters \<Rightarrow> store \<Rightarrow> nat \<Rightarrow> (store \<times> nat) option" where
  "filtered_in f h arr =
     (case read_transactions h arr of
        None \<Rightarrow> None
      | Some rts \<Rightarrow>
          Some (h @ [Arr (map fst (filter (\<lambda>p. inType f (snd p) \<and> inCategory f (snd p) \<and>
                                             inText f (snd p) \<and> inDate f (snd p)) rts))],
                length h))"

definition sums_in :: "store \<Rightarrow> nat \<Rightarrow> (store \<times> totals) option" where
  "sums_in h arr = map_option (\<lambda>rts. (h, sums_tx (map snd rts))) (read_transactions h arr)"

definition monthlyExpenses_in ::
  "(string \<Rightarrow> int option) \<Rightarrow> int \<Rightarrow> store \<Rightarrow> nat \<Rightarrow> (store \<times> int) option" where
  "monthlyExpenses_in Date_parse now h arr =
     map_option (\<lambda>rts. (h, monthlyExpenses Date_parse now (map snd rts))) (read_transactions h arr)"

definition totalsByType_in :: "store \<Rightarrow> nat \<Rightarrow> (store \<times> totals) option" where
  "totalsByType_in h arr = map_option (\<lambda>ts. (h, totalsByType ts)) (read_legacy h arr)"

definition dailySeriesForMonth_in ::
  "(int \<Rightarrow> string) \<Rightarrow> int \<Rightarrow> int \<Rightarrow> store \<Rightarrow> nat \<Rightarrow>
     (store \<times> (error + (string \<times> int) list)) option" where
  "dailySeriesForMonth_in format year month h arr =
     map_option (\<lambda>ts. (h, dailySeriesForMonth format ts year month)) (read_legacy h arr)"

text \<open>
  \<open>chartDaily\<close> creates one bucket object per label and updates the bucket found under
  the date of each record; \<open>byCategory\<close> creates one slot object per category and updates
  the slot of each expense.  A slot that \<open>agg[k]\<close> finds in \<open>Object.prototype\<close> is not a
  cell of this store.
\<close>

fun init_buckets :: "string list \<Rightarrow> store \<Rightarrow> (string \<rightharpoonup> nat) \<Rightarrow> store \<times> (string \<rightharpoonup> nat)" where
  "init_buckets [] h m = (h, m)"
| "init_buckets (d # ds) h m =
     init_buckets ds (h @ [Bucket \<lparr>d_date = d, d_income = 0, d_expense = 0, d_net = 0\<rparr>])
       (m(d \<mapsto> length h))"

definition bucket_write :: "(string \<rightharpoonup> nat) \<Rightarrow> store \<Rightarrow> nat \<Rightarrow> store option" where
  "bucket_write m h r =
     (case load_tx h r of
        None \<Rightarrow> None
      | Some t \<Rightarrow>
          (case tx_date t of
             None \<Rightarrow> Some h
           | Some s \<Rightarrow>
               (case m s of
                  None \<Rightarrow> Some h
                | Some a \<Rightarrow>
                    (case load_bucket h a of
                       None \<Rightarrow> None
                     | Some b \<Rightarrow> Some (h[a := Bucket (add_to_bucket b t)])))))"

definition chartDaily_in :: "int \<Rightarrow> store \<Rightarrow> nat \<Rightarrow> (store \<times> nat) option" where
  "chartDaily_in now h arr =
     (case load_arr h arr of
        None \<Rightarrow> None
      | Some refs \<Rightarrow>
          (let dates = window_dates now;
               hm = init_buckets dates h Map.empty
           in case fold_opt (bucket_write (snd hm)) (fst hm) refs of
                None \<Rightarrow> None
              | Some h1 \<Rightarrow> Some (h1 @ [Arr (List.map_filter (snd hm) dates)], length h1)))"

definition agg_write ::
  "(string \<times> nat) list \<times> store \<Rightarrow> nat \<Rightarrow> ((string \<times> nat) list \<times> store) option" where
  "agg_write s r =
     (case load_tx (snd s) r of
        None \<Rightarrow> None
      | Some t \<Rightarrow>
          if tx_type t \<noteq> Some ''expense'' then Some s
          else
            (case map_of (fst s) (category t) of
               Some a \<Rightarrow>
                 (case load_slot (snd s) a of
                    None \<Rightarrow> None
                  | Some slot \<Rightarrow>
                      Some (fst s, (snd s)[a := Slot (slot\<lparr>c_expense := c_expense slot + amount t\<rparr>)]))
             | None \<Rightarrow>
                 if category t \<in> set inherited_keys then Some s
                 else Some (define_own (category t) (length (snd s)) (fst s),
                            snd s @ [Slot \<lparr>c_category = category t, c_expense = 0 + amount t\<rparr>])))"

definition expense_at :: "store \<Rightarrow> nat \<Rightarrow> int" where
  "expense_at h a = (case load_slot h a of None \<Rightarrow> 0 | Some s \<Rightarrow> c_expense s)"

definition byCategory_in :: "store \<Rightarrow> nat \<Rightarrow> (store \<times> nat) option" where
  "byCategory_in h arr =
     (case load_arr h arr of
        None \<Rightarrow> None
      | Some refs \<Rightarrow>
          (case fold_opt agg_write ([], h) refs of
             None \<Rightarrow> None
           | Some s \<Rightarrow>
               Some (snd s @ [Arr (take 10 (sort_key (\<lambda>a. - expense_at (snd s) a)
                                              (Object_values (fst s))))],
                     length (snd s))))"

text \<open>
  \<open>preserved h h'\<close>: every cell of \<open>h\<close> is a cell of \<open>h'\<close> with the same value.  A
  well-formed input is an array of record addresses.  A fresh array is a cell created by
  the call whose elements are cells created by the call.
\<close>

definition preserved :: "store \<Rightarrow> store \<Rightarrow> bool" where
  "preserved h h' = (take (length h) h' = h)"

definition well_formed :: "store \<Rightarrow> nat \<Rightarrow> bool" where
  "well_formed h arr =
     (case load_arr h arr of None \<Rightarrow> False | Some refs \<Rightarrow> list_all (\<lambda>r. load_tx h r \<noteq> None) refs)"

definition well_formed_legacy :: "store \<Rightarrow> nat \<Rightarrow> bool" where
  "well_formed_legacy h arr =
     (case load_arr h arr of
        None \<Rightarrow> False
      | Some refs \<Rightarrow> list_all (\<lambda>r. load_legacy h r \<noteq> None) refs)"

definition fresh_array :: "store \<Rightarrow> store \<Rightarrow> nat \<Rightarrow> bool" where
  "fresh_array h h' a =
     (length h \<le> a \<and>
      (case load_arr h' a of None \<Rightarrow> False | Some rs \<Rightarrow> list_all (\<lambda>r. length h \<le> r \<and> r < length h') rs))"

definition has_bucket :: "store \<Rightarrow> nat \<Rightarrow> bool" where
  "has_bucket h a = (load_bucket h a \<noteq> None)"

definition has_slot :: "store \<Rightarrow> nat \<Rightarrow> bool" where
  "has_slot h a = (load_slot h a \<noteq> None)"

section \<open>Properties of the filtered view\<close>

lemma foldl_add_amount:
  "foldl (\<lambda>a t. a + f t) (a0 :: int) xs = a0 + sum_list (map f xs)"
  by (induction xs arbitrary: a0) simp_all

text \<open>
  C1.  A claim that the type filter keeps the transactions whose effective type equals
  the filter, a record without a type counting as an expense.  The filter compares the raw
  field: with \<open>typeFilter = "expense"\<close> and every other filter neutral, a record without a
  type is dropped, although its effective type is \<open>expense\<close>, the overview totals add it to
  the expenses and the earlier views select it with \<open>(t.type || 'expense') === 'expense'\<close>.
\<close>

theorem filtered_drops_untyped_expense:
  "effective_type \<lparr>tx_type = None, amount = 200, category = ''Food & Dining'',
       tx_note = None, tx_date = Some ''2024-06-10''\<rparr> = ''expense'' \<and>
   filtered \<lparr>typeFilter = ''expense'', categoryFilter = ''all'', queryText = [],
       startDate = [], endDate = []\<rparr>
     [\<lparr>tx_type = None, amount = 200, category = ''Food & Dining'',
       tx_note = None, tx_date = Some ''2024-06-10''\<rparr>] = []"
  by (simp add: filtered_def inType_def effective_type_def or_else_def)

section \<open>Properties of the totals\<close>

lemma sum_filter_amount:
  "foldl (\<lambda>a t. a + f t) (0 :: int) (filter P xs) = (\<Sum>t\<leftarrow>xs. if P t then f t else 0)"
  by (simp add: foldl_add_amount sum_list_map_filter')

lemma foldl_sums_step:
  "foldl sums_step (a, b) xs =
     (a + (\<Sum>t\<leftarrow>xs. if tx_type t = Some ''income'' then amount t else 0),
      b + (\<Sum>t\<leftarrow>xs. if tx_type t = Some ''income'' then 0 else amount t))"
  by (induction xs arbitrary: a b) (simp_all add: sums_step_def)

lemma sums_tx_fields:
  "income (sums_tx xs) = (\<Sum>t\<leftarrow>xs. if tx_type t = Some ''income'' then amount t else 0)"
  "expense (sums_tx xs) = (\<Sum>t\<leftarrow>xs. if tx_type t = Some ''income'' then 0 else amount t)"
  "balance (sums_tx xs) = income (sums_tx xs) - expense (sums_tx xs)"
  by (simp_all add: sums_tx_def Let_def foldl_sums_step)

lemma totalsByType_fields:
  "income (totalsByType ts) = (\<Sum>t\<leftarrow>ts. if l_type t = Some ''income'' then l_amount t else 0)"
  "expense (totalsByType ts) =
     (\<Sum>t\<leftarrow>ts. if or_else (l_type t) ''expense'' = ''expense'' then l_amount t else 0)"
  "balance (totalsByType ts) = income (totalsByType ts) - expense (totalsByType ts)"
  by (simp_all add: totalsByType_def totalIncome_def totalExpense_def totalBalance_def
      sum_filter_amount)

lemma sums_tx_as_legacy:
  assumes "\<forall>t\<in>set xs. or_else (tx_type t) ''expense'' \<in> {''income'', ''expense''}"
  shows "sums_tx xs = totalsByType (map as_legacy xs)"
proof -
  have e: "(if tx_type t = Some ''income'' then 0 else amount t) =
           (if or_else (tx_type t) ''expense'' = ''expense'' then amount t else 0)"
    if "t \<in> set xs" for t
    using assms that by (auto simp: or_else_def split: option.splits if_splits)
  have "expense (sums_tx xs) = expense (totalsByType (map as_legacy xs))"
    unfolding sums_tx_fields totalsByType_fields map_map comp_def
    by (rule arg_cong [where f = sum_list], rule map_cong) (simp_all add: e as_legacy_def)
  moreover have "income (sums_tx xs) = income (totalsByType (map as_legacy xs))"
    unfolding sums_tx_fields totalsByType_fields map_map comp_def
    by (rule arg_cong [where f = sum_list], rule map_cong) (simp_all add: as_legacy_def)
  moreover have "balance (sums_tx xs) = balance (totalsByType (map as_legacy xs))"
    using calculation by (simp add: sums_tx_fields(3) totalsByType_fields(3))
  ultimately show ?thesis by simp
qed

text \<open>
  Within \<open>exact_range\<close> every sum that the totals form is a whole number of magnitude at
  most \<open>2^53\<close>, so the additions and the subtraction of the code are exact.
\<close>

lemma part_sum_bound:
  "abs (\<Sum>t\<leftarrow>xs. if P t then f t else (0::int)) \<le> (\<Sum>a\<leftarrow>map f xs. abs a)"
  by (induction xs) auto

lemma take_sum_bound:
  "(\<Sum>a\<leftarrow>map f (take n xs). abs a) \<le> (\<Sum>a\<leftarrow>map f xs. abs (a::int))"
proof (induction xs arbitrary: n)
  case Nil
  show ?case by simp
next
  case (Cons x xs)
  from Cons [of "n - 1"] show ?case by (cases n) simp_all
qed

lemma balance_bound:
  "abs ((\<Sum>t\<leftarrow>xs. if P t then f t else 0) - (\<Sum>t\<leftarrow>xs. if Q t \<and> \<not> P t then f t else (0::int)))
     \<le> (\<Sum>a\<leftarrow>map f xs. abs a)"
  by (induction xs) auto

text \<open>
  C2.  On a list of whole amounts within \<open>exact_range\<close>, \<open>totalsByType\<close> adds the amounts
  of the records whose type is \<open>income\<close> to the income and those of the records whose
  effective type \<open>t.type || 'expense'\<close> is \<open>expense\<close> (a missing, null or empty type counts
  as an expense) to the expenses, the balance is their difference, and all the running sums
  of the two reductions stay within \<open>2^53\<close>, where doubles are exact; on
  \<open>[{type:'income', amount:1000}, {type:'expense', amount:300}, {amount:200}]\<close> the result
  is \<open>{income:1000, expense:500, balance:500}\<close>.  The one-pass \<open>sums\<close> of the current
  component gives the same three figures on every such list whose effective types are all
  \<open>income\<close> or \<open>expense\<close>, as the data model says.
\<close>

theorem totalsByType_sums_by_effective_type:
  "(exact_range (map l_amount ts) \<longrightarrow>
      income (totalsByType ts) =
        (\<Sum>t\<leftarrow>ts. if l_type t = Some ''income'' then l_amount t else 0) \<and>
      expense (totalsByType ts) =
        (\<Sum>t\<leftarrow>ts. if or_else (l_type t) ''expense'' = ''expense'' then l_amount t else 0) \<and>
      balance (totalsByType ts) = income (totalsByType ts) - expense (totalsByType ts) \<and>
      (\<forall>n. abs (totalIncome (take n ts)) \<le> 2 ^ 53 \<and> abs (totalExpense (take n ts)) \<le> 2 ^ 53) \<and>
      abs (balance (totalsByType ts)) \<le> 2 ^ 53) \<and>
   totalsByType
     [\<lparr>l_type = Some ''income'', l_amount = 1000, l_category = c1, l_date = d1\<rparr>,
      \<lparr>l_type = Some ''expense'', l_amount = 300, l_category = c2, l_date = d2\<rparr>,
      \<lparr>l_type = None, l_amount = 200, l_category = c3, l_date = d3\<rparr>]
     = \<lparr>income = 1000, expense = 500, balance = 500\<rparr> \<and>
   (exact_range (map amount xs) \<and>
    (\<forall>t\<in>set xs. or_else (tx_type t) ''expense'' \<in> {''income'', ''expense''}) \<longrightarrow>
      sums_tx xs = totalsByType (map as_legacy xs))"
proof -
  have "totalsByType
     [\<lparr>l_type = Some ''income'', l_amount = 1000, l_category = c1, l_date = d1\<rparr>,
      \<lparr>l_type = Some ''expense'', l_amount = 300, l_category = c2, l_date = d2\<rparr>,
      \<lparr>l_type = None, l_amount = 200, l_category = c3, l_date = d3\<rparr>]
     = \<lparr>income = 1000, expense = 500, balance = 500\<rparr>"
    by (simp add: totalsByType_def totalIncome_def totalExpense_def totalBalance_def
        or_else_def)
  moreover have "exact_range (map amount xs) \<and>
    (\<forall>t\<in>set xs. or_else (tx_type t) ''expense'' \<in> {''income'', ''expense''}) \<longrightarrow>
      sums_tx xs = totalsByType (map as_legacy xs)"
    using sums_tx_as_legacy [of xs] by blast
  moreover have "abs (totalIncome (take n ts)) \<le> 2 ^ 53 \<and> abs (totalExpense (take n ts)) \<le> 2 ^ 53"
    if r: "exact_range (map l_amount ts)" for n
  proof -
    have "(\<Sum>a\<leftarrow>map l_amount (take n ts). abs a) \<le> (\<Sum>a\<leftarrow>map l_amount ts. abs a)"
      by (rule take_sum_bound)
    with r have b: "(\<Sum>a\<leftarrow>map l_amount (take n ts). abs a) \<le> 2 ^ 53"
      by (simp add: exact_range_def)
    from part_sum_bound [of "\<lambda>t. l_type t = Some ''income''" l_amount "take n ts"]
      part_sum_bound [of "\<lambda>t. or_else (l_type t) ''expense'' = ''expense''" l_amount "take n ts"]
      b
    show ?thesis
      by (simp add: totalIncome_def totalExpense_def sum_filter_amount)
  qed
  moreover have "abs (balance (totalsByType ts)) \<le> 2 ^ 53"
    if r: "exact_range (map l_amount ts)"
  proof -
    have "balance (totalsByType ts) =
        (\<Sum>t\<leftarrow>ts. if l_type t = Some ''income'' then l_amount t else 0) -
        (\<Sum>t\<leftarrow>ts. if or_else (l_type t) ''expense'' = ''expense'' \<and> l_type t \<noteq> Some ''income''
               then l_amount t else 0)"
      unfolding totalsByType_fields
      by (rule arg_cong2 [where f = "(-)"], rule refl, rule arg_cong [where f = sum_list],
          rule map_cong) (auto simp: or_else_def)
    with balance_bound [of "\<lambda>t. l_type t = Some ''income''" l_amount ts
        "\<lambda>t. or_else (l_type t) ''expense'' = ''expense''"] r
    show ?thesis by (simp add: exact_range_def)
  qed
  ultimately show ?thesis
    using totalsByType_fields [of ts] by blast
qed

theorem totalsByType_sums_by_effective_type_witness:
  "sums_tx
     [\<lparr>tx_type = Some ''income'', amount = 1000, category = ''Salary'', tx_note = None,
         tx_date = Some ''2024-06-01''\<rparr>,
      \<lparr>tx_type = Some ''expense'', amount = 300, category = ''Bills'', tx_note = None,
         tx_date = Some ''2024-06-02''\<rparr>,
      \<lparr>tx_type = None, amount = 200, category = ''Health'', tx_note = None,
         tx_date = None\<rparr>]
     = \<lparr>income = 1000, expense = 500, balance = 500\<rparr> \<and>
   income (totalsByType
     [\<lparr>l_type = Some ''income'', l_amount = 9007199254740000, l_category = ''Salary'',
        l_date = NoDate\<rparr>,
      \<lparr>l_type = Some ''income'', l_amount = 992, l_category = ''Salary'', l_date = NoDate\<rparr>])
     = 9007199254740992"
proof -
  let ?xs = "[\<lparr>tx_type = Some ''income'', amount = 1000, category = ''Salary'', tx_note = None,
         tx_date = Some ''2024-06-01''\<rparr>,
      \<lparr>tx_type = Some ''expense'', amount = 300, category = ''Bills'', tx_note = None,
         tx_date = Some ''2024-06-02''\<rparr>,
      \<lparr>tx_type = None, amount = 200, category = ''Health'', tx_note = None,
         tx_date = None\<rparr>]"
  let ?ts = "[\<lparr>l_type = Some ''income'', l_amount = 9007199254740000, l_category = ''Salary'',
        l_date = NoDate\<rparr>,
      \<lparr>l_type = Some ''income'', l_amount = 992, l_category = ''Salary'', l_date = NoDate\<rparr>]"
  have h: "exact_range (map amount ?xs) \<and>
      (\<forall>t\<in>set ?xs. or_else (tx_type t) ''expense'' \<in> {''income'', ''expense''})"
    by (simp add: or_else_def exact_range_def)
  have r: "exact_range (map l_amount ?ts)"
    by (simp add: exact_range_def)
  from totalsByType_sums_by_effective_type
    [of ?ts "''Salary''" "DateString ''2024-06-01''" "''Bills''" "DateString ''2024-06-02''"
      "''Health''" NoDate ?xs] h r
  have "sums_tx ?xs = totalsByType (map as_legacy ?xs)"
    and "totalsByType
     [\<lparr>l_type = Some ''income'', l_amount = 1000, l_category = ''Salary'',
        l_date = DateString ''2024-06-01''\<rparr>,
      \<lparr>l_type = Some ''expense'', l_amount = 300, l_category = ''Bills'',
        l_date = DateString ''2024-06-02''\<rparr>,
      \<lparr>l_type = None, l_amount = 200, l_category = ''Health'', l_date = NoDate\<rparr>]
     = \<lparr>income = 1000, expense = 500, balance = 500\<rparr>"
    and "income (totalsByType ?ts) =
        (\<Sum>t\<leftarrow>?ts. if l_type t = Some ''income'' then l_amount t else 0)"
    by blast+
  then show ?thesis by (simp add: as_legacy_def)
qed

section \<open>Properties of the budget figures\<close>




section \<open>Properties of the calendar\<close>

lemma DayFromYear_1970: "DayFromYear 1970 = 0"
  by (simp add: DayFromYear_def)

lemma DayFromYear_upper: "0 \<le> k \<Longrightarrow> DayFromYear (1970 + k) \<le> 366 * k"
proof (induction k rule: int_ge_induct)
  case base
  show ?case by (simp add: DayFromYear_1970)
next
  case (step i)
  have "DayFromYear (1970 + (i + 1)) = DayFromYear (1970 + i) + DaysInYear (1970 + i)"
    using DayFromYear_Suc [of "1970 + i"] by (simp add: add.assoc)
  with step DaysInYear_bounds [of "1970 + i"] show ?case by simp
qed

lemma DayFromYear_lower: "k \<le> 0 \<Longrightarrow> DayFromYear (1970 + k) \<le> 365 * k"
proof (induction k rule: int_le_induct)
  case base
  show ?case by (simp add: DayFromYear_1970)
next
  case (step i)
  have "DayFromYear (1970 + i) = DayFromYear (1970 + (i - 1)) + DaysInYear (1970 + (i - 1))"
    using DayFromYear_Suc [of "1970 + (i - 1)"] by simp
  with step DaysInYear_bounds [of "1970 + (i - 1)"] show ?case by simp
qed

lemma year_start_le:
  "DayFromYear (1970 + (if 0 \<le> d then d div 366 else d div 365)) \<le> d"
proof (cases "0 \<le> d")
  case True
  then have "0 \<le> d div 366" by simp
  from DayFromYear_upper [OF this] have "DayFromYear (1970 + d div 366) \<le> 366 * (d div 366)" .
  also have "\<dots> \<le> d" using mult_div_mod_eq [of 366 d] pos_mod_sign [of 366 d] by linarith
  finally show ?thesis using True by simp
next
  case False
  then have "d div 365 \<le> 0" by (simp add: div_int_pos_iff not_le) 
  from DayFromYear_lower [OF this] have "DayFromYear (1970 + d div 365) \<le> 365 * (d div 365)" .
  also have "\<dots> \<le> d" using mult_div_mod_eq [of 365 d] pos_mod_sign [of 365 d] by linarith
  finally show ?thesis using False by simp
qed

lemma year_search_sound:
  "DayFromYear y \<le> d \<Longrightarrow>
   DayFromYear (year_search y d) \<le> d \<and> d < DayFromYear (year_search y d + 1)"
proof (induction y d rule: year_search.induct)
  case (1 y d)
  show ?case
  proof (cases "DayFromYear (y + 1) \<le> d")
    case True
    with "1.IH" show ?thesis by (subst (1 2) year_search.simps) simp
  next
    case False
    with "1.prems" show ?thesis by (subst (1 2) year_search.simps) simp
  qed
qed

lemma YearFromTime_sound:
  "DayFromYear (YearFromTime d) \<le> d \<and> d < DayFromYear (YearFromTime d + 1)"
  unfolding YearFromTime_def by (rule year_search_sound [OF year_start_le])

lemma DayFromYear_mono: "y \<le> y' \<Longrightarrow> DayFromYear y \<le> DayFromYear y'"
proof (induction y' rule: int_ge_induct)
  case base
  show ?case by simp
next
  case (step i)
  with DayFromYear_less [of i] show ?case by linarith
qed

lemma YearFromTime_unique:
  assumes "DayFromYear y \<le> d" "d < DayFromYear (y + 1)"
  shows "YearFromTime d = y"
proof (rule ccontr)
  assume ne: "YearFromTime d \<noteq> y"
  let ?z = "YearFromTime d"
  note s = YearFromTime_sound [of d]
  show False
  proof (cases "?z < y")
    case True
    then have "DayFromYear (?z + 1) \<le> DayFromYear y" by (intro DayFromYear_mono) simp
    with s assms show False by linarith
  next
    case False
    with ne have "y + 1 \<le> ?z" by simp
    then have "DayFromYear (y + 1) \<le> DayFromYear ?z" by (rule DayFromYear_mono)
    with s assms show False by linarith
  qed
qed

lemma leap_day_cases: "leap_day y = 0 \<or> leap_day y = 1"
  by (simp add: leap_day_def)

lemma leap_day_bounds: "0 \<le> leap_day y" "leap_day y \<le> 1"
  by (simp_all add: leap_day_def)

lemma month_set:
  assumes "0 \<le> (m::int)" "m \<le> 11"
  shows "m \<in> {0, 1, 2, 3, 4, 5, 6, 7, 8, 9, 10, 11}"
proof -
  have "m \<in> set [0..11]" using assms by simp
  also have "[0..11] = [0, 1, 2, 3, 4, 5, 6, 7, 8, 9, 10, 11::int]" by (simp add: upto.simps)
  finally show ?thesis by simp
qed

lemma month_cases [consumes 2, case_names 0 1 2 3 4 5 6 7 8 9 10 11]:
  assumes "0 \<le> (m::int)" "m \<le> 11"
  obtains "m = 0" | "m = 1" | "m = 2" | "m = 3" | "m = 4" | "m = 5" | "m = 6" | "m = 7"
    | "m = 8" | "m = 9" | "m = 10" | "m = 11"
  using month_set [OF assms] by blast

lemma MonthFromTime_range: "0 \<le> MonthFromTime t" "MonthFromTime t \<le> 11"
  by (simp_all add: MonthFromTime_def Let_def)

lemma month_start_date:
  "month_start (MonthFromTime t) (InLeapYear t) + DateFromTime t - 1 = DayWithinYear t"
  using MonthFromTime_range [of t]
  by (cases "MonthFromTime t" rule: month_cases)
     (simp_all add: month_start_def DateFromTime_def Let_def)

lemma MakeDay_back:
  "MakeDay (YearFromTime t) (MonthFromTime t) (DateFromTime t - n) = t - n"
proof -
  have "MonthFromTime t div 12 = 0" "MonthFromTime t mod 12 = MonthFromTime t"
    using MonthFromTime_range [of t] by simp_all
  then have "MakeDay (YearFromTime t) (MonthFromTime t) (DateFromTime t - n) =
      DayFromYear (YearFromTime t) +
        (month_start (MonthFromTime t) (InLeapYear t) + DateFromTime t - 1) - n"
    by (simp add: MakeDay_def InLeapYear_def Let_def)
  then show ?thesis
    by (simp only: month_start_date DayWithinYear_def)
qed

lemma DaysInYear_leap: "DaysInYear y = 365 + leap_day y"
  using DaysInYear_cases [of y] by (auto simp: leap_day_def)

lemma leap_day_rule:
  "leap_day y = (if y mod 4 = 0 \<and> (y mod 100 \<noteq> 0 \<or> y mod 400 = 0) then 1 else 0)"
proof (cases "y mod 400 = 0")
  case True
  with leap_mods [of y] have "y mod 100 = 0" "y mod 4 = 0" by blast+
  with True show ?thesis by (simp add: leap_day_def DaysInYear_def)
next
  case n400: False
  show ?thesis
  proof (cases "y mod 100 = 0")
    case True
    with leap_mods(1) [of y] have "y mod 4 = 0" by blast
    with True n400 show ?thesis by (simp add: leap_day_def DaysInYear_def)
  next
    case False
    with n400 show ?thesis by (simp add: leap_day_def DaysInYear_def)
  qed
qed

lemma civil_fields:
  assumes "0 \<le> w" "w < 365 + leap_day y"
  shows "YearFromTime (DayFromYear y + w) = y"
    and "DayWithinYear (DayFromYear y + w) = w"
    and "InLeapYear (DayFromYear y + w) = leap_day y"
proof -
  show y: "YearFromTime (DayFromYear y + w) = y"
    using assms by (intro YearFromTime_unique) (simp_all add: DayFromYear_Suc DaysInYear_leap)
  show "DayWithinYear (DayFromYear y + w) = w" by (simp add: DayWithinYear_def y)
  show "InLeapYear (DayFromYear y + w) = leap_day y" by (simp add: InLeapYear_def y)
qed

lemma month_length_leap:
  "month_length y m =
     (if m = 1 then 28 + leap_day y else if m = 3 \<or> m = 5 \<or> m = 8 \<or> m = 10 then 30 else 31)"
  by (auto simp: month_length_def leap_day_rule)

lemma MakeDay_fields:
  assumes m: "0 \<le> m" "m \<le> 11" and k: "1 \<le> k" "k \<le> month_length y m"
  shows "YearFromTime (MakeDay y m k) = y \<and> MonthFromTime (MakeDay y m k) = m \<and>
         DateFromTime (MakeDay y m k) = k"
proof -
  let ?l = "leap_day y"
  let ?w = "month_start m ?l + k - 1"
  note lb = leap_day_bounds [of y]
  have md: "MakeDay y m k = DayFromYear y + ?w"
    using m by (simp add: MakeDay_def)
  have w: "0 \<le> ?w \<and> ?w < 365 + ?l"
    using m k lb unfolding month_length_leap
    by (cases m rule: month_cases) (simp_all add: month_start_def)
  then have f: "YearFromTime (MakeDay y m k) = y" "DayWithinYear (MakeDay y m k) = ?w"
      "InLeapYear (MakeDay y m k) = ?l"
    unfolding md by (simp_all add: civil_fields)
  have mm: "MonthFromTime (MakeDay y m k) = m"
    using m k lb unfolding month_length_leap MonthFromTime_def f Let_def
    by (cases m rule: month_cases) (simp_all add: month_start_def)
  have "DateFromTime (MakeDay y m k) = k"
    using m unfolding DateFromTime_def f mm Let_def
    by (cases m rule: month_cases) (simp_all add: month_start_def)
  with f mm show ?thesis by simp
qed

lemma MakeDay_month_end:
  assumes m: "0 \<le> m" "m \<le> 11"
  shows "MakeDay y (m + 1) 0 = MakeDay y m (month_length y m)"
  using m unfolding month_length_leap
  by (cases m rule: month_cases)
     (simp_all add: MakeDay_def month_start_def DayFromYear_Suc DaysInYear_leap)

lemma month_length_pos: "28 \<le> month_length y m" "month_length y m \<le> 31"
  by (simp_all add: month_length_def)

lemma days_in_month:
  assumes m: "0 \<le> m" "m \<le> 11"
  shows "DateFromTime (MakeDay y (m + 1) 0) = month_length y m"
  using MakeDay_fields [OF m, of "month_length y m" y] month_length_pos [of y m]
  by (simp add: MakeDay_month_end [OF m])

lemmas cal_eval = toISO_def getFullYear_def getMonth_def getDate_def YearFromTime_def
  year_search.simps DayFromYear_def MonthFromTime_def DateFromTime_def DayWithinYear_def
  InLeapYear_def leap_day_def DaysInYear_def Let_def String_of_def pad_def digits.simps


section \<open>Properties of the rolling window\<close>

lemma daysAgo_eq: "daysAgo now n = toISO (now - n)"
  by (simp add: daysAgo_def setDate_def getDate_def MakeDay_back)

lemma window_dates_eq:
  "window_dates now = map (\<lambda>k. toISO (now - 29 + int k)) [0..<30]"
proof (rule nth_equalityI)
  show "length (window_dates now) = length (map (\<lambda>k. toISO (now - 29 + int k)) [0..<30])"
    by (simp add: window_dates_def)
next
  fix i assume "i < length (window_dates now)"
  then have i: "i < 30" by (simp add: window_dates_def)
  then have "rev [0..<30] ! i = 29 - i" by (simp add: rev_nth)
  moreover have "toISO (now - (29 - int i)) = toISO (now - 29 + int i)"
    by (rule arg_cong [where f = toISO]) simp
  ultimately show "window_dates now ! i = map (\<lambda>k. toISO (now - 29 + int k)) [0..<30] ! i"
    using i by (simp add: window_dates_def daysAgo_eq del: upt_Suc)
qed

lemma fold_buckets:
  "fold (\<lambda>d m. m(d \<mapsto> \<lparr>d_date = d, d_income = 0, d_expense = 0, d_net = 0\<rparr>)) dates m d =
     (if d \<in> set dates then Some \<lparr>d_date = d, d_income = 0, d_expense = 0, d_net = 0\<rparr> else m d)"
  by (induction dates arbitrary: m) auto

lemma empty_buckets_apply:
  "empty_buckets dates d =
     (if d \<in> set dates then Some \<lparr>d_date = d, d_income = 0, d_expense = 0, d_net = 0\<rparr> else None)"
  by (simp add: empty_buckets_def fold_buckets)

lemma bucket_step_apply: "bucket_step m t d = map_option (\<lambda>b. bump d b t) (m d)"
  by (cases "tx_date t"; cases "m d")
     (auto simp: bucket_step_def bump_def split: option.splits)

lemma foldl_bucket_step:
  "foldl bucket_step m xs d = map_option (\<lambda>b. foldl (bump d) b xs) (m d)"
proof (induction xs arbitrary: m)
  case Nil
  show ?case by (simp add: option.map_ident)
next
  case (Cons t xs)
  have "foldl bucket_step m (t # xs) d = foldl bucket_step (bucket_step m t) xs d" by simp
  also have "\<dots> = map_option (\<lambda>b. foldl (bump d) b xs) (bucket_step m t d)"
    by (rule Cons.IH)
  also have "\<dots> = map_option (\<lambda>b. foldl (bump d) b (t # xs)) (m d)"
    by (simp add: bucket_step_apply option.map_comp comp_def)
  finally show ?case .
qed

lemma foldl_bump:
  "foldl (bump d) \<lparr>d_date = l, d_income = i, d_expense = e, d_net = i - e\<rparr> xs =
     \<lparr>d_date = l, d_income = i + income_on xs d, d_expense = e + expense_on xs d,
      d_net = (i + income_on xs d) - (e + expense_on xs d)\<rparr>"
proof (induction xs arbitrary: i e)
  case Nil
  show ?case by (simp add: income_on_def expense_on_def)
next
  case (Cons t xs)
  have "bump d \<lparr>d_date = l, d_income = i, d_expense = e, d_net = i - e\<rparr> t =
        \<lparr>d_date = l, d_income = i + income_on [t] d, d_expense = e + expense_on [t] d,
         d_net = (i + income_on [t] d) - (e + expense_on [t] d)\<rparr>"
    by (simp add: bump_def add_to_bucket_def income_on_def expense_on_def Let_def)
  then show ?case
    by (simp add: Cons.IH) (simp add: income_on_def expense_on_def)
qed

lemma chartDaily_buckets:
  "chartDaily now xs =
     map (\<lambda>d. Some \<lparr>d_date = d, d_income = income_on xs d, d_expense = expense_on xs d,
                     d_net = income_on xs d - expense_on xs d\<rparr>) (window_dates now)"
proof -
  have "foldl bucket_step (empty_buckets (window_dates now)) xs d =
        Some \<lparr>d_date = d, d_income = income_on xs d, d_expense = expense_on xs d,
              d_net = income_on xs d - expense_on xs d\<rparr>"
    if "d \<in> set (window_dates now)" for d
    using that foldl_bump [of d d 0 0 xs]
    by (simp add: foldl_bucket_step empty_buckets_apply)
  then show ?thesis by (simp add: chartDaily_def Let_def)
qed

lemma income_on_remove:
  "tx_date t \<noteq> Some d \<Longrightarrow> income_on (xs @ t # ys) d = income_on (xs @ ys) d"
  "tx_date t \<noteq> Some d \<Longrightarrow> expense_on (xs @ t # ys) d = expense_on (xs @ ys) d"
  by (simp_all add: income_on_def expense_on_def)



text \<open>
  C9.  A transaction of the filtered list whose date is not one of the thirty labels (a
  date with a time suffix, in another format, or missing) changes nothing: the series is
  the one computed without it.
\<close>

theorem chartDaily_ignores_unmatched:
  assumes "tx_date t \<notin> Some ` set (window_dates now)"
  shows "chartDaily now (xs @ t # ys) = chartDaily now (xs @ ys)"
proof -
  have "tx_date t \<noteq> Some d" if "d \<in> set (window_dates now)" for d
    using assms that by auto
  then show ?thesis
    by (simp add: chartDaily_buckets income_on_remove)
qed

lemma window_dates_example:
  "window_dates 19889 =
     [''2024-05-17'', ''2024-05-18'', ''2024-05-19'', ''2024-05-20'', ''2024-05-21'',
      ''2024-05-22'', ''2024-05-23'', ''2024-05-24'', ''2024-05-25'', ''2024-05-26'',
      ''2024-05-27'', ''2024-05-28'', ''2024-05-29'', ''2024-05-30'', ''2024-05-31'',
      ''2024-06-01'', ''2024-06-02'', ''2024-06-03'', ''2024-06-04'', ''2024-06-05'',
      ''2024-06-06'', ''2024-06-07'', ''2024-06-08'', ''2024-06-09'', ''2024-06-10'',
      ''2024-06-11'', ''2024-06-12'', ''2024-06-13'', ''2024-06-14'', ''2024-06-15'']"
proof -
  have "window_dates 19889 =
     map toISO [19860, 19861, 19862, 19863, 19864, 19865, 19866, 19867, 19868, 19869,
      19870, 19871, 19872, 19873, 19874, 19875, 19876, 19877, 19878, 19879,
      19880, 19881, 19882, 19883, 19884, 19885, 19886, 19887, 19888, 19889]"
  proof -
    have "[0..<30] = [0, 1, 2, 3, 4, 5, 6, 7, 8, 9, 10, 11, 12, 13, 14, 15, 16, 17, 18, 19,
        20, 21, 22, 23, 24, 25, 26, 27, 28, 29]"
      by code_simp
    then show ?thesis by (simp add: window_dates_eq del: upt_Suc)
  qed
  then show ?thesis by (simp add: cal_eval)
qed

theorem chartDaily_unmatched_witness:
  "chartDaily 19889
     [\<lparr>tx_type = Some ''income'', amount = 5000000, category = ''Salary'', tx_note = None,
        tx_date = Some ''2024-06-01''\<rparr>,
      \<lparr>tx_type = Some ''expense'', amount = 10000, category = ''Food & Dining'', tx_note = None,
        tx_date = Some ''2024-06-15T10:30:00''\<rparr>,
      \<lparr>tx_type = Some ''expense'', amount = 25000, category = ''Bills'', tx_note = None,
        tx_date = Some ''2024-06-15''\<rparr>] =
   chartDaily 19889
     [\<lparr>tx_type = Some ''income'', amount = 5000000, category = ''Salary'', tx_note = None,
        tx_date = Some ''2024-06-01''\<rparr>,
      \<lparr>tx_type = Some ''expense'', amount = 25000, category = ''Bills'', tx_note = None,
        tx_date = Some ''2024-06-15''\<rparr>]"
proof -
  have h: "tx_date \<lparr>tx_type = Some ''expense'', amount = 10000, category = ''Food & Dining'',
        tx_note = None, tx_date = Some ''2024-06-15T10:30:00''\<rparr>
      \<notin> Some ` set (window_dates 19889)"
    by (simp add: window_dates_example)
  show ?thesis
    using chartDaily_ignores_unmatched [OF h,
      of "[\<lparr>tx_type = Some ''income'', amount = 5000000, category = ''Salary'', tx_note = None,
        tx_date = Some ''2024-06-01''\<rparr>]"
         "[\<lparr>tx_type = Some ''expense'', amount = 25000, category = ''Bills'', tx_note = None,
        tx_date = Some ''2024-06-15''\<rparr>]"]
    by simp
qed

section \<open>Properties of the expenses by category\<close>


lemma values_put_index: "set (put_index k v ps) = insert (k, v) (set ps)"
  by (induction ps) (auto split: if_splits)














lemmas cat_eval = byCategory_def Object_values_def agg_step_def define_own_def set_own_def
  is_array_index_def index_of_def digit_value_def digits.simps inherited_keys_def expense_tx_def


lemma byCategory_length: "length (byCategory xs) \<le> 10"
  by (simp add: byCategory_def)




text \<open>
  C10.  The list never has more than 10 entries.  With eleven distinct expense categories
  of which the largest is named \<open>constructor\<close>, the ten others are returned and the largest
  is missing: \<open>agg['constructor']\<close> reads the inherited constructor function, \<open>||=\<close> does
  not assign, and the amount is added to a property of that function instead of a slot of
  \<open>agg\<close>.
\<close>

theorem byCategory_drops_inherited_category:
  "length (byCategory xs) \<le> 10 \<and>
   byCategory
     [expense_tx ''constructor'' 900000, expense_tx ''Food & Dining'' 100000, expense_tx ''Transportation'' 90000,
      expense_tx ''Housing'' 80000, expense_tx ''Bills'' 70000, expense_tx ''Entertainment'' 60000, expense_tx ''Health'' 50000,
      expense_tx ''Education'' 40000, expense_tx ''Shopping'' 30000, expense_tx ''Other (expense)'' 20000,
      expense_tx ''Gifts'' 10000] =
     [\<lparr>c_category = ''Food & Dining'', c_expense = 100000\<rparr>,
      \<lparr>c_category = ''Transportation'', c_expense = 90000\<rparr>,
      \<lparr>c_category = ''Housing'', c_expense = 80000\<rparr>,
      \<lparr>c_category = ''Bills'', c_expense = 70000\<rparr>,
      \<lparr>c_category = ''Entertainment'', c_expense = 60000\<rparr>,
      \<lparr>c_category = ''Health'', c_expense = 50000\<rparr>,
      \<lparr>c_category = ''Education'', c_expense = 40000\<rparr>,
      \<lparr>c_category = ''Shopping'', c_expense = 30000\<rparr>,
      \<lparr>c_category = ''Other (expense)'', c_expense = 20000\<rparr>,
      \<lparr>c_category = ''Gifts'', c_expense = 10000\<rparr>]"
  by (simp add: byCategory_length) (simp add: cat_eval)

section \<open>Properties of this month's expenses\<close>

lemma monthly_step_sum:
  "foldl (monthly_step P y m) a xs =
     a + (\<Sum>t\<leftarrow>xs. monthly_step P y m 0 t)"
proof (induction xs arbitrary: a)
  case Nil
  show ?case by simp
next
  case (Cons t xs)
  have "monthly_step P y m a t = a + monthly_step P y m 0 t"
    by (simp add: monthly_step_def split: option.splits)
  then show ?case by (simp add: Cons.IH)
qed

lemma monthlyExpenses_sum:
  "monthlyExpenses P now xs =
     (\<Sum>t\<leftarrow>xs. if tx_type t = Some ''expense'' \<and> in_month P now t then amount t else 0)"
proof -
  have "monthly_step P (getFullYear now) (getMonth now) 0 t =
        (if tx_type t = Some ''expense'' \<and> in_month P now t then amount t else 0)" for t
    by (cases "tx_date t")
       (auto simp: monthly_step_def in_month_def truthy_def or_else_def split: option.splits)
  then show ?thesis
    by (simp add: monthlyExpenses_def monthly_step_sum)
qed

lemma june_10: "getFullYear 19884 = 2024 \<and> getMonth 19884 = 5 \<and> getDate 19884 = 10"
  by (simp add: cal_eval)

lemma june_15: "getFullYear 19889 = 2024 \<and> getMonth 19889 = 5 \<and> getDate 19889 = 15"
  by (simp add: cal_eval)

text \<open>
  C5.  A claim that the monthly figure adds the records of the month whose effective type
  is \<open>expense\<close>, a missing type counting as an expense.  \<open>monthlyExpenses\<close> tests
  \<open>t.type !== 'expense'\<close> on the raw field: with the clock on 15 June 2024, a record of 200
  dated 10 June without a type contributes nothing, whatever the parser returns, while the
  same record with the type written out contributes 200 and \<open>monthExpense\<close> of the earlier
  view, which tests \<open>(t.type || 'expense') === 'expense'\<close>, counts the untyped record.
\<close>

theorem monthlyExpenses_skips_untyped_expense:
  "monthlyExpenses Date_parse 19889
     [\<lparr>tx_type = None, amount = 200, category = ''Food & Dining'', tx_note = None,
       tx_date = Some ''2024-06-10''\<rparr>] = 0 \<and>
   effective_type \<lparr>tx_type = None, amount = 200, category = ''Food & Dining'', tx_note = None,
       tx_date = Some ''2024-06-10''\<rparr> = ''expense'' \<and>
   monthlyExpenses (\<lambda>s. if s = ''2024-06-10'' then Some 19884 else None) 19889
     [\<lparr>tx_type = Some ''expense'', amount = 200, category = ''Food & Dining'', tx_note = None,
       tx_date = Some ''2024-06-10''\<rparr>] = 200 \<and>
   monthExpense 19889
     [\<lparr>l_type = None, l_amount = 200, l_category = ''Food & Dining'', l_date = Timestamp 19884\<rparr>] = Inr 200"
  using june_10 june_15
  by (simp add: monthlyExpenses_def monthly_step_def effective_type_def or_else_def truthy_def
      monthExpense_def isSameMonth_def toDate_def)

section \<open>Properties of the daily series\<close>

lemma or_zero_simps [simp]: "or_zero None = 0" "or_zero (Some n) = n"
  by (simp_all add: or_zero_def)

lemma filter_throwing_total:
  assumes "\<forall>x\<in>set xs. p x = Inr (q x)"
  shows "filter_throwing p xs = Inr (filter q xs)"
  using assms by (induction xs) simp_all

lemma monthExpenseTx_total:
  assumes "timestamped_expenses ts"
  shows "monthExpenseTx y m ts =
     Inr (filter (\<lambda>t. case l_date t of
                         Timestamp d \<Rightarrow> getMonth d = m \<and> getFullYear d = y
                       | DateString s \<Rightarrow> False
                       | NoDate \<Rightarrow> False)
            (expenseTx ts))"
  unfolding monthExpenseTx_def
proof (rule filter_throwing_total, rule ballI)
  fix t assume "t \<in> set (expenseTx ts)"
  then have "is_Timestamp (l_date t)"
    using assms
    by (auto simp: expenseTx_def timestamped_expenses_def legacy_effective_type_def list_all_iff)
  then show "(case toDate (l_date t) of
               Inl e \<Rightarrow> Inl e
             | Inr d \<Rightarrow> Inr (getMonth d = m \<and> getFullYear d = y)) =
        Inr (case l_date t of
               Timestamp d \<Rightarrow> getMonth d = m \<and> getFullYear d = y
             | DateString s \<Rightarrow> False
             | NoDate \<Rightarrow> False)"
    by (cases "l_date t") (simp_all add: toDate_def is_Timestamp_def)
qed

lemma forEach_byDate:
  assumes "\<forall>t\<in>set xs. is_Timestamp (l_date t)"
  shows "\<exists>bd. forEach_throwing
           (\<lambda>m tx. case toDate (l_date tx) of
                      Inl e \<Rightarrow> Inl e
                    | Inr d \<Rightarrow> Inr (m(f d \<mapsto> or_zero (m (f d)) + l_amount tx))) m0 xs = Inr bd \<and>
         (\<forall>l. or_zero (bd l) =
            or_zero (m0 l) +
            (\<Sum>t\<leftarrow>xs. case l_date t of
                       Timestamp d \<Rightarrow> if f d = l then l_amount t else 0
                     | DateString s \<Rightarrow> 0
                     | NoDate \<Rightarrow> 0))"
  using assms
proof (induction xs arbitrary: m0)
  case Nil
  show ?case by simp
next
  case (Cons t xs)
  from Cons.prems obtain d where d: "l_date t = Timestamp d"
    by (cases "l_date t") (simp_all add: is_Timestamp_def)
  from Cons.prems have "\<forall>t\<in>set xs. is_Timestamp (l_date t)" by simp
  from Cons.IH [OF this, of "m0(f d \<mapsto> or_zero (m0 (f d)) + l_amount t)"]
  obtain bd where
    bd: "forEach_throwing
           (\<lambda>m tx. case toDate (l_date tx) of
                      Inl e \<Rightarrow> Inl e
                    | Inr d \<Rightarrow> Inr (m(f d \<mapsto> or_zero (m (f d)) + l_amount tx)))
           (m0(f d \<mapsto> or_zero (m0 (f d)) + l_amount t)) xs = Inr bd"
      "\<And>l. or_zero (bd l) =
            or_zero ((m0(f d \<mapsto> or_zero (m0 (f d)) + l_amount t)) l) +
            (\<Sum>t\<leftarrow>xs. case l_date t of
                       Timestamp d \<Rightarrow> if f d = l then l_amount t else 0
                     | DateString s \<Rightarrow> 0
                     | NoDate \<Rightarrow> 0)"
    by blast
  have "or_zero (bd l) =
            or_zero (m0 l) +
            (\<Sum>t\<leftarrow>t # xs. case l_date t of
                       Timestamp d \<Rightarrow> if f d = l then l_amount t else 0
                     | DateString s \<Rightarrow> 0
                     | NoDate \<Rightarrow> 0)" for l
    unfolding bd(2) [of l] by (simp add: d)
  moreover have "forEach_throwing
           (\<lambda>m tx. case toDate (l_date tx) of
                      Inl e \<Rightarrow> Inl e
                    | Inr d \<Rightarrow> Inr (m(f d \<mapsto> or_zero (m (f d)) + l_amount tx)))
           m0 (t # xs) = Inr bd"
    using bd(1) by (simp add: d toDate_def)
  ultimately show ?case by blast
qed

lemma byDate_total:
  assumes "\<forall>t\<in>set xs. is_Timestamp (l_date t)"
  shows "\<exists>bd. byDate f xs = Inr bd \<and>
         (\<forall>l. or_zero (bd l) =
            (\<Sum>t\<leftarrow>xs. case l_date t of
                       Timestamp d \<Rightarrow> if f d = l then l_amount t else 0
                     | DateString s \<Rightarrow> 0
                     | NoDate \<Rightarrow> 0))"
  using forEach_byDate [OF assms, of f Map.empty] by (simp add: byDate_def)

lemma label_total_filter:
  "(\<Sum>t\<leftarrow>filter (\<lambda>t. case l_date t of
                        Timestamp d \<Rightarrow> getMonth d = m \<and> getFullYear d = y
                      | DateString s \<Rightarrow> False
                      | NoDate \<Rightarrow> False) (expenseTx ts).
       case l_date t of
         Timestamp d \<Rightarrow> if f d = l then l_amount t else 0
       | DateString s \<Rightarrow> 0
       | NoDate \<Rightarrow> 0) = label_total f ts y m l"
proof -
  have "(if or_else (l_type t) ''expense'' = ''expense'' \<and>
            (case l_date t of
               Timestamp d \<Rightarrow> getMonth d = m \<and> getFullYear d = y
             | DateString s \<Rightarrow> False
             | NoDate \<Rightarrow> False)
         then (case l_date t of
                 Timestamp d \<Rightarrow> if f d = l then l_amount t else 0
               | DateString s \<Rightarrow> 0
               | NoDate \<Rightarrow> 0)
         else 0) =
        (if legacy_effective_type t = ''expense'' \<and> labelled f t y m l then l_amount t else 0)"
    for t
    by (cases "l_date t") (auto simp: legacy_effective_type_def labelled_def)
  then show ?thesis
    by (simp add: expenseTx_def label_total_def sum_list_map_filter' conj_commute
        if_distrib [where f = "\<lambda>b. if b then _ else _"] cong: if_cong)
qed

lemma daysInMonth_eq:
  assumes "0 \<le> m" "m \<le> 11"
  shows "daysInMonth y m = month_length (MakeFullYear y) m"
  using days_in_month [OF assms, of "MakeFullYear y"]
  by (simp only: daysInMonth_def new_Date_def getDate_def)

lemma new_Date_fields:
  assumes "0 \<le> m" "m \<le> 11" "1 \<le> k" "k \<le> month_length (MakeFullYear y) m"
  shows "getFullYear (new_Date y m k) = MakeFullYear y \<and> getMonth (new_Date y m k) = m \<and>
         getDate (new_Date y m k) = k"
  using MakeDay_fields [OF assms]
  by (simp only: new_Date_def getFullYear_def getMonth_def getDate_def)

lemma DayWithinYear_range: "0 \<le> DayWithinYear t" "DayWithinYear t < 365 + InLeapYear t"
  using YearFromTime_sound [of t]
  by (simp_all add: DayWithinYear_def InLeapYear_def DayFromYear_Suc DaysInYear_leap)

lemma DateFromTime_range:
  "1 \<le> DateFromTime t" "DateFromTime t \<le> month_length (YearFromTime t) (MonthFromTime t)"
proof -
  note r = DayWithinYear_range [of t] leap_day_bounds [of "YearFromTime t"]
  have l: "InLeapYear t = leap_day (YearFromTime t)" by (simp add: InLeapYear_def)
  have "1 \<le> DateFromTime t \<and>
      DateFromTime t \<le> month_length (YearFromTime t) (MonthFromTime t)"
    using MonthFromTime_range [of t]
  proof (cases "MonthFromTime t" rule: month_cases)
    case 0
    then show ?thesis using r
      by (simp add: DateFromTime_def month_length_leap Let_def MonthFromTime_def
          split: if_splits)
  next
    case 1
    then show ?thesis using r
      by (simp add: DateFromTime_def month_length_leap Let_def MonthFromTime_def l
          split: if_splits)
  next
    case 2
    then show ?thesis using r
      by (simp add: DateFromTime_def month_length_leap Let_def MonthFromTime_def l
          split: if_splits)
  next
    case 3
    then show ?thesis using r
      by (simp add: DateFromTime_def month_length_leap Let_def MonthFromTime_def l
          split: if_splits)
  next
    case 4
    then show ?thesis using r
      by (simp add: DateFromTime_def month_length_leap Let_def MonthFromTime_def l
          split: if_splits)
  next
    case 5
    then show ?thesis using r
      by (simp add: DateFromTime_def month_length_leap Let_def MonthFromTime_def l
          split: if_splits)
  next
    case 6
    then show ?thesis using r
      by (simp add: DateFromTime_def month_length_leap Let_def MonthFromTime_def l
          split: if_splits)
  next
    case 7
    then show ?thesis using r
      by (simp add: DateFromTime_def month_length_leap Let_def MonthFromTime_def l
          split: if_splits)
  next
    case 8
    then show ?thesis using r
      by (simp add: DateFromTime_def month_length_leap Let_def MonthFromTime_def l
          split: if_splits)
  next
    case 9
    then show ?thesis using r
      by (simp add: DateFromTime_def month_length_leap Let_def MonthFromTime_def l
          split: if_splits)
  next
    case 10
    then show ?thesis using r
      by (simp add: DateFromTime_def month_length_leap Let_def MonthFromTime_def l
          split: if_splits)
  next
    case 11
    then show ?thesis using r
      by (simp add: DateFromTime_def month_length_leap Let_def MonthFromTime_def l
          split: if_splits)
  qed
  then show "1 \<le> DateFromTime t"
    "DateFromTime t \<le> month_length (YearFromTime t) (MonthFromTime t)"
    by simp_all
qed

text \<open>
  When the labels of the days of the month are pairwise different, an expense of the month
  carries the label of day \<open>k\<close> exactly when it is dated on day \<open>k\<close>.
\<close>

lemma labelled_dated:
  assumes m: "0 \<le> m" "m \<le> 11" and y: "MakeFullYear y = y"
    and k: "1 \<le> k" "k \<le> month_length y m"
    and dist: "distinct (dateLabels f y m)"
  shows "labelled f t y m (f (new_Date y m k)) = dated_on t y m k"
proof (cases "l_date t")
  case (Timestamp d)
  have nd: "new_Date y m j = MakeDay y m j" for j by (simp add: new_Date_def y)
  have len: "daysInMonth y m = month_length y m" using daysInMonth_eq [OF m, of y] y by simp
  have "(f d = f (new_Date y m k)) = (getDate d = k)"
    if dy: "getFullYear d = y" and dm: "getMonth d = m"
  proof -
    let ?j = "getDate d"
    have j: "1 \<le> ?j" "?j \<le> month_length y m"
      using DateFromTime_range [of d] dy dm
      by (simp_all add: getDate_def getFullYear_def getMonth_def)
    have d: "d = new_Date y m ?j"
      using MakeDay_back [of d 0] dy dm
      by (simp add: nd getDate_def getFullYear_def getMonth_def)
    let ?ls = "dateLabels f y m"
    have n: "length ?ls = nat (month_length y m)" by (simp add: dateLabels_def len)
    have a: "?ls ! nat (?j - 1) = f d"
      using j d by (simp add: dateLabels_def len del: upt_Suc)
    have b: "?ls ! nat (k - 1) = f (new_Date y m k)"
      using k by (simp add: dateLabels_def len del: upt_Suc)
    have "(?ls ! nat (?j - 1) = ?ls ! nat (k - 1)) = (nat (?j - 1) = nat (k - 1))"
      using j k n by (intro nth_eq_iff_index_eq [OF dist]) simp_all
    then show ?thesis using j k unfolding a b by auto
  qed
  then show ?thesis
    using Timestamp by (auto simp: labelled_def dated_on_def)
next
  case (DateString s)
  then show ?thesis by (simp add: labelled_def dated_on_def)
next
  case NoDate
  then show ?thesis by (simp add: labelled_def dated_on_def)
qed

lemma label_total_day:
  assumes "0 \<le> m" "m \<le> 11" "MakeFullYear y = y" "1 \<le> k" "k \<le> month_length y m"
    "distinct (dateLabels f y m)"
  shows "label_total f ts y m (f (new_Date y m k)) = day_total ts y m k"
  by (simp add: label_total_def day_total_def labelled_dated [OF assms])

lemma dailySeries_entries:
  assumes ts: "timestamped_expenses transactions" and m: "0 \<le> month" "month \<le> 11"
  shows "\<exists>entries. dailySeriesForMonth format transactions year month = Inr entries \<and>
           length entries = nat (month_length (MakeFullYear year) month) \<and>
           (\<forall>i < nat (month_length (MakeFullYear year) month).
              entries ! i =
                (format (new_Date year month (int i + 1)),
                 label_total format transactions year month
                   (format (new_Date year month (int i + 1)))))"
proof -
  let ?sel = "filter (\<lambda>t. case l_date t of
                         Timestamp d \<Rightarrow> getMonth d = month \<and> getFullYear d = year
                       | DateString s \<Rightarrow> False
                       | NoDate \<Rightarrow> False) (expenseTx transactions)"
  have sel: "monthExpenseTx year month transactions = Inr ?sel"
    by (rule monthExpenseTx_total [OF ts])
  have "\<forall>t\<in>set ?sel. is_Timestamp (l_date t)"
    by (auto simp: is_Timestamp_def split: stored_date.splits)
  from byDate_total [OF this, of format] obtain bd where
    bd: "byDate format ?sel = Inr bd"
      "\<And>l. or_zero (bd l) = label_total format transactions year month l"
    by (auto simp: label_total_filter)
  let ?labels = "dateLabels format year month"
  let ?entries = "zip ?labels (map (\<lambda>date. or_zero (bd date)) ?labels)"
  have r: "dailySeriesForMonth format transactions year month = Inr ?entries"
    by (simp add: dailySeriesForMonth_def sel bd(1) Let_def)
  have n: "length ?labels = nat (month_length (MakeFullYear year) month)"
    by (simp add: dateLabels_def daysInMonth_eq [OF m])
  have "?entries ! i =
        (format (new_Date year month (int i + 1)),
         label_total format transactions year month (format (new_Date year month (int i + 1))))"
    if i: "i < nat (month_length (MakeFullYear year) month)" for i
  proof -
    have "?labels ! i = format (new_Date year month (int i + 1))"
      using i by (simp add: dateLabels_def daysInMonth_eq [OF m] del: upt_Suc)
    then show ?thesis using i n by (simp add: bd(2))
  qed
  moreover have "length ?entries = nat (month_length (MakeFullYear year) month)"
    using n by simp
  ultimately show ?thesis using r by blast
qed

lemma february_2024: "month_length 2024 1 = 29"
  by (simp add: month_length_def)

lemma MakeFullYear_2024: "MakeFullYear 2024 = 2024"
  by (simp add: MakeFullYear_def)

lemma dailySeries_empty_february:
  "dailySeriesForMonth format [] 2024 1 =
     Inr (map (\<lambda>i. (format (new_Date 2024 1 (int i + 1)), 0)) [0..<29])"
proof -
  have "daysInMonth 2024 1 = 29"
    using daysInMonth_eq [of 1 2024] by (simp add: MakeFullYear_2024 february_2024)
  then have "dateLabels format 2024 1 = map (\<lambda>i. format (new_Date 2024 1 (int i + 1))) [0..<29]"
    by (simp add: dateLabels_def del: upt_Suc)
  then show ?thesis
    by (simp add: dailySeriesForMonth_def monthExpenseTx_def expenseTx_def byDate_def Let_def
        zip_map_map zip_same_conv_map del: upt_Suc)
qed

text \<open>
  C4.  A claim that the daily series has one entry per calendar day of the month for every
  transaction list.  The series is built by calling \<open>t.date.toDate()\<close> on every record whose
  effective type is \<open>expense\<close>: on a list that holds an expense as the current component
  stores it, with an ISO string as its date, or an expense without a date, the call throws
  a \<open>TypeError\<close> and there is no series, while \<open>monthlyExpenses\<close> and \<open>chartDaily\<close> of the
  current component read the same collection and pass over the dates they cannot use.  On
  the lists whose expenses all carry a timestamp the claim holds, for every month index
  \<open>0..11\<close> (February is 1): the series has one entry per day of the month of the year
  that the \<open>Date\<close> constructor takes (the given year, but \<open>1900 + y\<close> for a year \<open>y\<close> in
  \<open>0..99\<close>), entry \<open>i\<close> is labelled with the date of day \<open>i + 1\<close>, and its sum is the total of
  the expenses of the given year and month whose date is printed as that label, which is
  the total of the expenses dated on that day when the year is taken as it is and the
  labels of the days differ; such a total is 0 when no expense matches.  For the empty list
  and February 2024 there are exactly 29 entries, all 0.
\<close>

theorem dailySeriesForMonth_throws_without_timestamp:
  "dailySeriesForMonth format
     [\<lparr>l_type = Some ''expense'', l_amount = 200, l_category = ''Food & Dining'',
       l_date = DateString ''2024-02-14''\<rparr>] 2024 1 = Inl TypeError \<and>
   dailySeriesForMonth format
     [\<lparr>l_type = None, l_amount = 200, l_category = ''Food & Dining'', l_date = NoDate\<rparr>] 2024 1
     = Inl TypeError \<and>
   (timestamped_expenses transactions \<and> 0 \<le> month \<and> month \<le> 11 \<longrightarrow>
      (\<exists>entries.
         dailySeriesForMonth format transactions year month = Inr entries \<and>
         length entries = nat (month_length (MakeFullYear year) month) \<and>
         (\<forall>i < nat (month_length (MakeFullYear year) month).
            getFullYear (new_Date year month (int i + 1)) = MakeFullYear year \<and>
            getMonth (new_Date year month (int i + 1)) = month \<and>
            getDate (new_Date year month (int i + 1)) = int i + 1 \<and>
            entries ! i =
              (format (new_Date year month (int i + 1)),
               label_total format transactions year month
                 (format (new_Date year month (int i + 1)))) \<and>
            (MakeFullYear year = year \<and> distinct (dateLabels format year month) \<longrightarrow>
               snd (entries ! i) = day_total transactions year month (int i + 1))))) \<and>
   dailySeriesForMonth format [] 2024 1 =
     Inr (map (\<lambda>i. (format (new_Date 2024 1 (int i + 1)), 0)) [0..<29])"
proof -
  have "dailySeriesForMonth format
     [\<lparr>l_type = Some ''expense'', l_amount = 200, l_category = ''Food & Dining'',
       l_date = DateString ''2024-02-14''\<rparr>] 2024 1 = Inl TypeError"
    by (simp add: dailySeriesForMonth_def monthExpenseTx_def expenseTx_def or_else_def
        toDate_def)
  moreover have "dailySeriesForMonth format
     [\<lparr>l_type = None, l_amount = 200, l_category = ''Food & Dining'', l_date = NoDate\<rparr>] 2024 1
     = Inl TypeError"
    by (simp add: dailySeriesForMonth_def monthExpenseTx_def expenseTx_def or_else_def
        toDate_def)
  moreover have "\<exists>entries.
         dailySeriesForMonth format transactions year month = Inr entries \<and>
         length entries = nat (month_length (MakeFullYear year) month) \<and>
         (\<forall>i < nat (month_length (MakeFullYear year) month).
            getFullYear (new_Date year month (int i + 1)) = MakeFullYear year \<and>
            getMonth (new_Date year month (int i + 1)) = month \<and>
            getDate (new_Date year month (int i + 1)) = int i + 1 \<and>
            entries ! i =
              (format (new_Date year month (int i + 1)),
               label_total format transactions year month
                 (format (new_Date year month (int i + 1)))) \<and>
            (MakeFullYear year = year \<and> distinct (dateLabels format year month) \<longrightarrow>
               snd (entries ! i) = day_total transactions year month (int i + 1)))"
    if h: "timestamped_expenses transactions \<and> 0 \<le> month \<and> month \<le> 11"
  proof -
    from h have ts: "timestamped_expenses transactions" and m: "0 \<le> month" "month \<le> 11"
      by simp_all
    from dailySeries_entries [OF ts m, of format year] obtain entries where
      e: "dailySeriesForMonth format transactions year month = Inr entries"
        "length entries = nat (month_length (MakeFullYear year) month)"
        "\<And>i. i < nat (month_length (MakeFullYear year) month) \<Longrightarrow>
           entries ! i =
             (format (new_Date year month (int i + 1)),
              label_total format transactions year month
                (format (new_Date year month (int i + 1))))"
      by blast
    have "getFullYear (new_Date year month (int i + 1)) = MakeFullYear year \<and>
            getMonth (new_Date year month (int i + 1)) = month \<and>
            getDate (new_Date year month (int i + 1)) = int i + 1 \<and>
            entries ! i =
              (format (new_Date year month (int i + 1)),
               label_total format transactions year month
                 (format (new_Date year month (int i + 1)))) \<and>
            (MakeFullYear year = year \<and> distinct (dateLabels format year month) \<longrightarrow>
               snd (entries ! i) = day_total transactions year month (int i + 1))"
      if i: "i < nat (month_length (MakeFullYear year) month)" for i
    proof -
      from i have k: "1 \<le> int i + 1" "int i + 1 \<le> month_length (MakeFullYear year) month"
        by linarith+
      note f = new_Date_fields [OF m k]
      have "snd (entries ! i) = day_total transactions year month (int i + 1)"
        if y: "MakeFullYear year = year" and d: "distinct (dateLabels format year month)"
      proof -
        from k y have k': "int i + 1 \<le> month_length year month" by simp
        from label_total_day [OF m y k(1) k' d, of transactions] e(3) [OF i]
        show ?thesis by simp
      qed
      with f e(3) [OF i] show ?thesis by blast
    qed
    with e(1,2) show ?thesis by blast
  qed
  ultimately show ?thesis
    using dailySeries_empty_february [of format] by blast
qed

lemma february_days:
  "getFullYear 19767 = 2024 \<and> getMonth 19767 = 1 \<and> getDate 19767 = 14 \<and>
   getFullYear 19773 = 2024 \<and> getMonth 19773 = 1 \<and> getDate 19773 = 20 \<and>
   getFullYear 19796 = 2024 \<and> getMonth 19796 = 2 \<and> getDate 19796 = 14"
  by (simp add: cal_eval)

lemma february_first: "new_Date 2024 1 1 = 19754"
  by (simp add: new_Date_def MakeFullYear_def MakeDay_def month_start_def DayFromYear_def
      leap_day_def DaysInYear_def)

lemma february_labels:
  "map toISO [19754, 19755, 19756, 19757, 19758, 19759, 19760, 19761, 19762, 19763, 19764,
     19765, 19766, 19767, 19768, 19769, 19770, 19771, 19772, 19773, 19774, 19775, 19776,
     19777, 19778, 19779, 19780, 19781, 19782] =
   [''2024-02-01'', ''2024-02-02'', ''2024-02-03'', ''2024-02-04'', ''2024-02-05'',
    ''2024-02-06'', ''2024-02-07'', ''2024-02-08'', ''2024-02-09'', ''2024-02-10'',
    ''2024-02-11'', ''2024-02-12'', ''2024-02-13'', ''2024-02-14'', ''2024-02-15'',
    ''2024-02-16'', ''2024-02-17'', ''2024-02-18'', ''2024-02-19'', ''2024-02-20'',
    ''2024-02-21'', ''2024-02-22'', ''2024-02-23'', ''2024-02-24'', ''2024-02-25'',
    ''2024-02-26'', ''2024-02-27'', ''2024-02-28'', ''2024-02-29'']"
  by (simp add: cal_eval)

lemma february_dateLabels:
  "dateLabels toISO 2024 1 =
   [''2024-02-01'', ''2024-02-02'', ''2024-02-03'', ''2024-02-04'', ''2024-02-05'',
    ''2024-02-06'', ''2024-02-07'', ''2024-02-08'', ''2024-02-09'', ''2024-02-10'',
    ''2024-02-11'', ''2024-02-12'', ''2024-02-13'', ''2024-02-14'', ''2024-02-15'',
    ''2024-02-16'', ''2024-02-17'', ''2024-02-18'', ''2024-02-19'', ''2024-02-20'',
    ''2024-02-21'', ''2024-02-22'', ''2024-02-23'', ''2024-02-24'', ''2024-02-25'',
    ''2024-02-26'', ''2024-02-27'', ''2024-02-28'', ''2024-02-29'']"
proof -
  have n: "daysInMonth 2024 1 = 29"
    using daysInMonth_eq [of 1 2024] by (simp add: MakeFullYear_2024 february_2024)
  have u: "[0..<29] = [0, 1, 2, 3, 4, 5, 6, 7, 8, 9, 10, 11, 12, 13, 14, 15, 16, 17, 18, 19, 20,
      21, 22, 23, 24, 25, 26, 27, 28]"
    by code_simp
  have d: "new_Date 2024 1 k = 19753 + k" for k
    using february_first by (simp add: new_Date_def MakeDay_def Let_def)
  show ?thesis
    unfolding dateLabels_def n
    using february_labels by (simp add: u d)
qed

theorem dailySeriesForMonth_february_2024_witness:
  "\<exists>entries.
     dailySeriesForMonth toISO
       [\<lparr>l_type = Some ''income'', l_amount = 5000000, l_category = ''Salary'',
         l_date = Timestamp 19767\<rparr>,
        \<lparr>l_type = Some ''expense'', l_amount = 200, l_category = ''Food & Drink'',
         l_date = Timestamp 19767\<rparr>,
        \<lparr>l_type = None, l_amount = 300, l_category = ''Housing'', l_date = Timestamp 19767\<rparr>,
        \<lparr>l_type = Some ''expense'', l_amount = 700, l_category = ''Shopping'',
         l_date = Timestamp 19796\<rparr>,
        \<lparr>l_type = Some ''expense'', l_amount = 50, l_category = ''Utilities'',
         l_date = Timestamp 19773\<rparr>,
        \<lparr>l_type = Some ''income'', l_amount = 10, l_category = ''Other'',
         l_date = DateString ''2024-02-01''\<rparr>] 2024 1 = Inr entries \<and>
     length entries = 29 \<and>
     entries ! 0 = (''2024-02-01'', 0) \<and>
     entries ! 13 = (''2024-02-14'', 500) \<and>
     entries ! 19 = (''2024-02-20'', 50)"
proof -
  let ?ts = "[\<lparr>l_type = Some ''income'', l_amount = 5000000, l_category = ''Salary'',
         l_date = Timestamp 19767\<rparr>,
        \<lparr>l_type = Some ''expense'', l_amount = 200, l_category = ''Food & Drink'',
         l_date = Timestamp 19767\<rparr>,
        \<lparr>l_type = None, l_amount = 300, l_category = ''Housing'', l_date = Timestamp 19767\<rparr>,
        \<lparr>l_type = Some ''expense'', l_amount = 700, l_category = ''Shopping'',
         l_date = Timestamp 19796\<rparr>,
        \<lparr>l_type = Some ''expense'', l_amount = 50, l_category = ''Utilities'',
         l_date = Timestamp 19773\<rparr>,
        \<lparr>l_type = Some ''income'', l_amount = 10, l_category = ''Other'',
         l_date = DateString ''2024-02-01''\<rparr>]"
  have h: "timestamped_expenses ?ts \<and> (0::int) \<le> 1 \<and> (1::int) \<le> 11"
    by (simp add: timestamped_expenses_def legacy_effective_type_def or_else_def
        is_Timestamp_def)
  have g: "MakeFullYear 2024 = 2024 \<and> distinct (dateLabels toISO 2024 1)"
    by (simp add: MakeFullYear_2024 february_dateLabels)
  from dailySeriesForMonth_throws_without_timestamp [of toISO ?ts 1 2024] h
  obtain entries where
    e: "dailySeriesForMonth toISO ?ts 2024 1 = Inr entries"
      "length entries = nat (month_length (MakeFullYear 2024) 1)"
      "\<forall>i < nat (month_length (MakeFullYear 2024) 1).
         entries ! i =
           (toISO (new_Date 2024 1 (int i + 1)),
            label_total toISO ?ts 2024 1 (toISO (new_Date 2024 1 (int i + 1)))) \<and>
         (MakeFullYear 2024 = 2024 \<and> distinct (dateLabels toISO 2024 1) \<longrightarrow>
            snd (entries ! i) = day_total ?ts 2024 1 (int i + 1))"
    by blast
  have n: "nat (month_length (MakeFullYear 2024) 1) = 29"
    by (simp add: MakeFullYear_2024 february_2024)
  have d: "new_Date 2024 1 k = 19753 + k" for k
    using february_first by (simp add: new_Date_def MakeDay_def Let_def)
  have t: "day_total ?ts 2024 1 1 = 0 \<and> day_total ?ts 2024 1 14 = 500 \<and>
      day_total ?ts 2024 1 20 = 50"
    using february_days
    by (simp add: day_total_def dated_on_def legacy_effective_type_def or_else_def)
  have l: "toISO 19754 = ''2024-02-01'' \<and> toISO 19767 = ''2024-02-14'' \<and>
      toISO 19773 = ''2024-02-20''"
    using february_labels by simp
  from e(3) [unfolded n, rule_format, of 0] g t l
  have "entries ! 0 = (''2024-02-01'', 0)" by (simp add: d prod_eq_iff)
  moreover from e(3) [unfolded n, rule_format, of 13] g t l
  have "entries ! 13 = (''2024-02-14'', 500)" by (simp add: d prod_eq_iff)
  moreover from e(3) [unfolded n, rule_format, of 19] g t l
  have "entries ! 19 = (''2024-02-20'', 50)" by (simp add: d prod_eq_iff)
  ultimately show ?thesis using e(1,2) n by auto
qed

section \<open>Properties of the operations on the store\<close>

lemma preserved_length:
  assumes "preserved h h'"
  shows "length h \<le> length h'"
proof -
  have "length (take (length h) h') = length h"
    using assms by (simp only: preserved_def)
  then show ?thesis by simp
qed

lemma preserved_refl: "preserved h h"
  by (simp add: preserved_def)

lemma preserved_append: "preserved h h1 \<Longrightarrow> preserved h (h1 @ ext)"
  using preserved_length [of h h1] by (simp add: preserved_def)

lemma preserved_update: "preserved h h1 \<Longrightarrow> length h \<le> a \<Longrightarrow> preserved h (h1[a := c])"
  by (simp add: preserved_def)

lemma preserved_nth: "preserved h h' \<Longrightarrow> a < length h \<Longrightarrow> h' ! a = h ! a"
  unfolding preserved_def by (metis nth_take)

lemma preserved_load_tx:
  assumes "preserved h h'" "load_tx h r \<noteq> None"
  shows "load_tx h' r = load_tx h r"
proof -
  from assms(2) have r: "r < length h" by (auto simp: load_tx_def split: if_splits)
  with preserved_length [OF assms(1)] preserved_nth [OF assms(1) r] show ?thesis
    by (simp add: load_tx_def)
qed

lemma those_total:
  "list_all (\<lambda>r. f r \<noteq> None) rs \<Longrightarrow> \<exists>ts. those (map f rs) = Some ts"
  by (induction rs) auto

lemma read_transactions_total:
  "well_formed h arr \<Longrightarrow> \<exists>rts. read_transactions h arr = Some rts"
  using those_total [of "load_tx h"]
  by (fastforce simp: well_formed_def read_transactions_def split: option.splits)

lemma read_legacy_total:
  "well_formed_legacy h arr \<Longrightarrow> \<exists>ts. read_legacy h arr = Some ts"
  using those_total [of "load_legacy h"]
  by (fastforce simp: well_formed_legacy_def read_legacy_def split: option.splits)

lemma has_bucket_append: "has_bucket h a \<Longrightarrow> has_bucket (h @ ext) a"
  by (auto simp: has_bucket_def load_bucket_def nth_append split: if_splits)

lemma has_bucket_update: "has_bucket h a' \<Longrightarrow> has_bucket (h[a := Bucket b]) a'"
  by (cases "a' = a") (auto simp: has_bucket_def load_bucket_def split: if_splits)

lemma has_bucket_new: "has_bucket (h @ [Bucket b]) (length h)"
  by (simp add: has_bucket_def load_bucket_def)

lemma has_bucket_load: "has_bucket h a \<Longrightarrow> \<exists>b. load_bucket h a = Some b"
  by (auto simp: has_bucket_def)

lemma has_bucket_bound: "has_bucket h a \<Longrightarrow> a < length h"
  by (auto simp: has_bucket_def load_bucket_def split: if_splits)

lemma has_slot_append: "has_slot h a \<Longrightarrow> has_slot (h @ ext) a"
  by (auto simp: has_slot_def load_slot_def nth_append split: if_splits)

lemma has_slot_update: "has_slot h a' \<Longrightarrow> has_slot (h[a := Slot b]) a'"
  by (cases "a' = a") (auto simp: has_slot_def load_slot_def split: if_splits)

lemma has_slot_new: "has_slot (h @ [Slot b]) (length h)"
  by (simp add: has_slot_def load_slot_def)

lemma has_slot_load: "has_slot h a \<Longrightarrow> \<exists>b. load_slot h a = Some b"
  by (auto simp: has_slot_def)

lemma has_slot_bound: "has_slot h a \<Longrightarrow> a < length h"
  by (auto simp: has_slot_def load_slot_def split: if_splits)

lemma init_buckets_inv:
  assumes "preserved h h0" "\<forall>a\<in>ran m. length h \<le> a \<and> has_bucket h0 a"
  shows "preserved h (fst (init_buckets ds h0 m)) \<and>
         (\<forall>a\<in>ran (snd (init_buckets ds h0 m)).
            length h \<le> a \<and> has_bucket (fst (init_buckets ds h0 m)) a)"
  using assms
proof (induction ds arbitrary: h0 m)
  case Nil
  then show ?case by simp
next
  case (Cons d ds)
  let ?h = "h0 @ [Bucket \<lparr>d_date = d, d_income = 0, d_expense = 0, d_net = 0\<rparr>]"
  let ?m = "m(d \<mapsto> length h0)"
  have p: "preserved h ?h" using Cons.prems(1) by (rule preserved_append)
  have q: "length h \<le> a \<and> has_bucket ?h a" if "a \<in> ran ?m" for a
  proof (cases "a = length h0")
    case True
    then show ?thesis
      using preserved_length [OF Cons.prems(1)] by (simp add: has_bucket_new)
  next
    case False
    with that have "a \<in> ran m"
      by (auto simp: ran_def split: if_splits)
    with Cons.prems(2) show ?thesis by (auto intro: has_bucket_append)
  qed
  then have "\<forall>a\<in>ran ?m. length h \<le> a \<and> has_bucket ?h a" by blast
  from Cons.IH [OF p this] show ?case unfolding init_buckets.simps .
qed

lemma bucket_write_inv:
  assumes "preserved h h1" "\<forall>a\<in>ran m. length h \<le> a \<and> has_bucket h1 a"
    and "load_tx h r \<noteq> None"
  shows "\<exists>h2. bucket_write m h1 r = Some h2 \<and> preserved h h2 \<and>
           (\<forall>a\<in>ran m. length h \<le> a \<and> has_bucket h2 a)"
proof -
  from assms(3) obtain t where t: "load_tx h1 r = Some t"
    using preserved_load_tx [OF assms(1,3)] by auto
  show ?thesis
  proof (cases "tx_date t")
    case None
    with t assms show ?thesis by (simp add: bucket_write_def)
  next
    case (Some s)
    show ?thesis
    proof (cases "m s")
      case None
      with t Some assms show ?thesis by (simp add: bucket_write_def)
    next
      case a: (Some a)
      then have "a \<in> ran m" by (auto simp: ran_def)
      with assms(2) has_bucket_load [of h1 a] obtain b where
        b: "length h \<le> a" "load_bucket h1 a = Some b" by auto
      have w: "bucket_write m h1 r = Some (h1[a := Bucket (add_to_bucket b t)])"
        using t Some a b by (simp add: bucket_write_def)
      moreover have "preserved h (h1[a := Bucket (add_to_bucket b t)])"
        using assms(1) b(1) by (rule preserved_update)
      moreover have "\<forall>a'\<in>ran m. length h \<le> a' \<and>
          has_bucket (h1[a := Bucket (add_to_bucket b t)]) a'"
        using assms(2) by (auto intro: has_bucket_update)
      ultimately show ?thesis by blast
    qed
  qed
qed

lemma fold_bucket_write:
  assumes "list_all (\<lambda>r. load_tx h r \<noteq> None) refs"
    and "preserved h h1" "\<forall>a\<in>ran m. length h \<le> a \<and> has_bucket h1 a"
  shows "\<exists>h2. fold_opt (bucket_write m) h1 refs = Some h2 \<and> preserved h h2 \<and>
           (\<forall>a\<in>ran m. length h \<le> a \<and> has_bucket h2 a)"
  using assms
proof (induction refs arbitrary: h1)
  case Nil
  then show ?case by simp
next
  case (Cons r refs)
  from Cons.prems(1) have r: "load_tx h r \<noteq> None" and rs: "list_all (\<lambda>r. load_tx h r \<noteq> None) refs"
    by simp_all
  from bucket_write_inv [OF Cons.prems(2,3) r] obtain h2 where
    h2: "bucket_write m h1 r = Some h2" "preserved h h2"
      "\<forall>a\<in>ran m. length h \<le> a \<and> has_bucket h2 a"
    by blast
  from Cons.IH [OF rs h2(2,3)] h2(1) show ?case by simp
qed

lemma map_filter_ran: "set (List.map_filter m ds) \<subseteq> ran m"
  by (auto simp: List.map_filter_def ran_def)

lemma fresh_arrayI:
  assumes "preserved h h1" "\<forall>r\<in>set rs. length h \<le> r \<and> r < length h1"
  shows "fresh_array h (h1 @ [Arr rs]) (length h1)"
  using assms preserved_length [OF assms(1)]
  by (auto simp: fresh_array_def load_arr_def list_all_iff)

lemma chartDaily_in_frame:
  assumes "well_formed h arr"
  shows "\<exists>h' out. chartDaily_in now h arr = Some (h', out) \<and> preserved h h' \<and>
           fresh_array h h' out"
proof -
  from assms obtain refs where refs: "load_arr h arr = Some refs"
    "list_all (\<lambda>r. load_tx h r \<noteq> None) refs"
    by (auto simp: well_formed_def split: option.splits)
  let ?hm = "init_buckets (window_dates now) h Map.empty"
  have i: "preserved h (fst ?hm) \<and>
      (\<forall>a\<in>ran (snd ?hm). length h \<le> a \<and> has_bucket (fst ?hm) a)"
    by (rule init_buckets_inv) (simp_all add: preserved_refl)
  with fold_bucket_write [OF refs(2), of "fst ?hm" "snd ?hm"] obtain h2 where
    h2: "fold_opt (bucket_write (snd ?hm)) (fst ?hm) refs = Some h2" "preserved h h2"
      "\<forall>a\<in>ran (snd ?hm). length h \<le> a \<and> has_bucket h2 a"
    by blast
  let ?rs = "List.map_filter (snd ?hm) (window_dates now)"
  have c: "chartDaily_in now h arr = Some (h2 @ [Arr ?rs], length h2)"
    using refs(1) h2(1) by (simp add: chartDaily_in_def Let_def)
  have "\<forall>r\<in>set ?rs. length h \<le> r \<and> r < length h2"
    using h2(3) map_filter_ran [of "snd ?hm" "window_dates now"]
    by (auto dest: has_bucket_bound)
  then have "fresh_array h (h2 @ [Arr ?rs]) (length h2)"
    by (rule fresh_arrayI [OF h2(2)])
  with c preserved_append [OF h2(2)] show ?thesis by blast
qed

lemma set_define_own: "set (define_own k v ps) = insert (k, v) (set ps)"
  by (simp add: define_own_def values_put_index)

lemma agg_write_inv:
  assumes "preserved h (snd s)"
    and "\<forall>a\<in>snd ` set (fst s). length h \<le> a \<and> has_slot (snd s) a"
    and "load_tx h r \<noteq> None"
  shows "\<exists>s2. agg_write s r = Some s2 \<and> preserved h (snd s2) \<and>
           (\<forall>a\<in>snd ` set (fst s2). length h \<le> a \<and> has_slot (snd s2) a)"
proof -
  from assms(3) obtain t where t: "load_tx (snd s) r = Some t"
    using preserved_load_tx [OF assms(1,3)] by auto
  show ?thesis
  proof (cases "tx_type t \<noteq> Some ''expense''")
    case True
    with t assms show ?thesis by (simp add: agg_write_def)
  next
    case exp: False
    show ?thesis
    proof (cases "map_of (fst s) (category t)")
      case (Some a)
      then have "a \<in> snd ` set (fst s)" by (force dest: map_of_SomeD)
      with assms(2) has_slot_load [of "snd s" a] obtain slot where
        b: "length h \<le> a" "load_slot (snd s) a = Some slot" by auto
      let ?h = "(snd s)[a := Slot (slot\<lparr>c_expense := c_expense slot + amount t\<rparr>)]"
      have "agg_write s r = Some (fst s, ?h)"
        using t exp Some b by (simp add: agg_write_def)
      moreover have "preserved h ?h" using assms(1) b(1) by (rule preserved_update)
      moreover have "\<forall>a'\<in>snd ` set (fst s). length h \<le> a' \<and> has_slot ?h a'"
        using assms(2) by (auto intro: has_slot_update)
      ultimately show ?thesis by force
    next
      case None
      show ?thesis
      proof (cases "category t \<in> set inherited_keys")
        case True
        with t exp None assms show ?thesis by (simp add: agg_write_def)
      next
        case False
        let ?c = "Slot \<lparr>c_category = category t, c_expense = 0 + amount t\<rparr>"
        let ?h = "snd s @ [?c]"
        let ?agg = "define_own (category t) (length (snd s)) (fst s)"
        have "agg_write s r = Some (?agg, ?h)"
          using t exp None False by (simp add: agg_write_def)
        moreover have "preserved h ?h" using assms(1) by (rule preserved_append)
        moreover have "length h \<le> a' \<and> has_slot ?h a'" if "a' \<in> snd ` set ?agg" for a'
        proof (cases "a' = length (snd s)")
          case True
          then show ?thesis
            using preserved_length [OF assms(1)] by (simp add: has_slot_new)
        next
          case False
          with that have "a' \<in> snd ` set (fst s)" by (auto simp: set_define_own)
          with assms(2) show ?thesis by (auto intro: has_slot_append)
        qed
        ultimately show ?thesis by force
      qed
    qed
  qed
qed

lemma fold_agg_write:
  assumes "list_all (\<lambda>r. load_tx h r \<noteq> None) refs"
    and "preserved h (snd s)"
    and "\<forall>a\<in>snd ` set (fst s). length h \<le> a \<and> has_slot (snd s) a"
  shows "\<exists>s2. fold_opt agg_write s refs = Some s2 \<and> preserved h (snd s2) \<and>
           (\<forall>a\<in>snd ` set (fst s2). length h \<le> a \<and> has_slot (snd s2) a)"
  using assms
proof (induction refs arbitrary: s)
  case Nil
  then show ?case by simp
next
  case (Cons r refs)
  from Cons.prems(1) have r: "load_tx h r \<noteq> None" and rs: "list_all (\<lambda>r. load_tx h r \<noteq> None) refs"
    by simp_all
  from agg_write_inv [OF Cons.prems(2,3) r] obtain s2 where
    s2: "agg_write s r = Some s2" "preserved h (snd s2)"
      "\<forall>a\<in>snd ` set (fst s2). length h \<le> a \<and> has_slot (snd s2) a"
    by blast
  from Cons.IH [OF rs s2(2,3)] s2(1) show ?case by simp
qed

lemma byCategory_in_frame:
  assumes "well_formed h arr"
  shows "\<exists>h' out. byCategory_in h arr = Some (h', out) \<and> preserved h h' \<and>
           fresh_array h h' out"
proof -
  from assms obtain refs where refs: "load_arr h arr = Some refs"
    "list_all (\<lambda>r. load_tx h r \<noteq> None) refs"
    by (auto simp: well_formed_def split: option.splits)
  from fold_agg_write [OF refs(2), of "([], h)"] obtain s where
    s: "fold_opt agg_write ([], h) refs = Some s" "preserved h (snd s)"
      "\<forall>a\<in>snd ` set (fst s). length h \<le> a \<and> has_slot (snd s) a"
    by (auto simp: preserved_refl)
  let ?rs = "take 10 (sort_key (\<lambda>a. - expense_at (snd s) a) (Object_values (fst s)))"
  have c: "byCategory_in h arr = Some (snd s @ [Arr ?rs], length (snd s))"
    using refs(1) s(1) by (simp add: byCategory_in_def)
  have "set ?rs \<subseteq> snd ` set (fst s)"
    using set_take_subset [of 10 "sort_key (\<lambda>a. - expense_at (snd s) a) (Object_values (fst s))"]
    by (simp add: Object_values_def)
  then have "\<forall>r\<in>set ?rs. length h \<le> r \<and> r < length (snd s)"
    using s(3) by (auto dest: has_slot_bound)
  then have "fresh_array h (snd s @ [Arr ?rs]) (length (snd s))"
    by (rule fresh_arrayI [OF s(2)])
  with c preserved_append [OF s(2)] show ?thesis by blast
qed

lemma filtered_in_frame:
  assumes "well_formed h arr"
  shows "\<exists>h' out. filtered_in f h arr = Some (h', out) \<and> preserved h h' \<and> length h \<le> out \<and>
           load_arr h' out \<noteq> None"
proof -
  from read_transactions_total [OF assms] obtain rts where "read_transactions h arr = Some rts"
    by blast
  then show ?thesis
    by (simp add: filtered_in_def preserved_def load_arr_def)
qed

text \<open>
  C8.  On a well-formed input every aggregation ends, the series of the month with its
  entries or with the \<open>TypeError\<close> of a date that is not a timestamp, and the store it
  leaves preserves the store it found: the transactions array and every record in it hold
  the values they held before the call.  The totals, the monthly figure and the series of
  the month leave the store as it is; \<open>filter\<close> adds one new array; the rolling series and
  the top categories return a new array of objects that the call created.
\<close>

theorem aggregation_leaves_input_unchanged:
  "(well_formed h arr \<longrightarrow>
      (\<exists>h' out. filtered_in f h arr = Some (h', out) \<and> preserved h h' \<and> length h \<le> out \<and>
         load_arr h' out \<noteq> None) \<and>
      (\<exists>v. sums_in h arr = Some (h, v)) \<and>
      (\<exists>v. monthlyExpenses_in Date_parse now h arr = Some (h, v)) \<and>
      (\<exists>h' out. chartDaily_in now h arr = Some (h', out) \<and> preserved h h' \<and>
         fresh_array h h' out) \<and>
      (\<exists>h' out. byCategory_in h arr = Some (h', out) \<and> preserved h h' \<and>
         fresh_array h h' out)) \<and>
   (well_formed_legacy h arr \<longrightarrow>
      (\<exists>v. totalsByType_in h arr = Some (h, v)) \<and>
      (\<exists>v. dailySeriesForMonth_in format year month h arr = Some (h, v)))"
proof -
  have a: "(\<exists>v. sums_in h arr = Some (h, v)) \<and>
      (\<exists>v. monthlyExpenses_in Date_parse now h arr = Some (h, v))"
    if "well_formed h arr"
    using read_transactions_total [OF that]
    by (auto simp: sums_in_def monthlyExpenses_in_def)
  have b: "(\<exists>v. totalsByType_in h arr = Some (h, v)) \<and>
      (\<exists>v. dailySeriesForMonth_in format year month h arr = Some (h, v))"
    if "well_formed_legacy h arr"
    using read_legacy_total [OF that]
    by (auto simp: totalsByType_in_def dailySeriesForMonth_in_def)
  from a b filtered_in_frame [of h arr f] chartDaily_in_frame [of h arr now]
    byCategory_in_frame [of h arr]
  show ?thesis by blast
qed

lemma example_store_well_formed:
  "well_formed
     [Tx (expense_tx ''Bills'' 70000),
      Tx \<lparr>tx_type = Some ''income'', amount = 5000000, category = ''Salary'', tx_note = None,
          tx_date = Some ''2024-06-15''\<rparr>,
      Arr [0, 1]] 2"
  by (simp add: well_formed_def load_arr_def load_tx_def)

lemma example_store_well_formed_legacy:
  "well_formed_legacy
     [LegacyTx \<lparr>l_type = None, l_amount = 200, l_category = ''Food & Drink'', l_date = Timestamp 19767\<rparr>,
      Arr [0]] 1"
  by (simp add: well_formed_legacy_def load_arr_def load_legacy_def)

theorem aggregation_leaves_input_unchanged_witness:
  "(\<exists>h' out. chartDaily_in 19889
       [Tx (expense_tx ''Bills'' 70000),
        Tx \<lparr>tx_type = Some ''income'', amount = 5000000, category = ''Salary'', tx_note = None,
            tx_date = Some ''2024-06-15''\<rparr>,
        Arr [0, 1]] 2 = Some (h', out) \<and>
      preserved
       [Tx (expense_tx ''Bills'' 70000),
        Tx \<lparr>tx_type = Some ''income'', amount = 5000000, category = ''Salary'', tx_note = None,
            tx_date = Some ''2024-06-15''\<rparr>,
        Arr [0, 1]] h') \<and>
   (\<exists>h' out. byCategory_in
       [Tx (expense_tx ''Bills'' 70000),
        Tx \<lparr>tx_type = Some ''income'', amount = 5000000, category = ''Salary'', tx_note = None,
            tx_date = Some ''2024-06-15''\<rparr>,
        Arr [0, 1]] 2 = Some (h', out) \<and>
      preserved
       [Tx (expense_tx ''Bills'' 70000),
        Tx \<lparr>tx_type = Some ''income'', amount = 5000000, category = ''Salary'', tx_note = None,
            tx_date = Some ''2024-06-15''\<rparr>,
        Arr [0, 1]] h') \<and>
   (\<exists>v. totalsByType_in
       [LegacyTx \<lparr>l_type = None, l_amount = 200, l_category = ''Food & Drink'', l_date = Timestamp 19767\<rparr>,
        Arr [0]] 1 =
      Some ([LegacyTx \<lparr>l_type = None, l_amount = 200, l_category = ''Food & Drink'', l_date = Timestamp 19767\<rparr>,
        Arr [0]], v))"
  using aggregation_leaves_input_unchanged
      [of "[Tx (expense_tx ''Bills'' 70000),
        Tx \<lparr>tx_type = Some ''income'', amount = 5000000, category = ''Salary'', tx_note = None,
            tx_date = Some ''2024-06-15''\<rparr>,
        Arr [0, 1]]" 2 _ _ 19889]
    aggregation_leaves_input_unchanged
      [of "[LegacyTx \<lparr>l_type = None, l_amount = 200, l_category = ''Food & Drink'', l_date = Timestamp 19767\<rparr>,
        Arr [0]]" 1]
    example_store_well_formed example_store_well_formed_legacy
  by blast

end
